theory Spec2Isabelle
  imports Complex_Main "HOL-Library.Word" "HOL-Library.Char_ord" "HOL-Library.List_Lexorder"
    "HOL-Library.Product_Lexorder" "HOL-Library.Multiset"
begin

unbundle bit_operations_syntax

section \<open>Data model: headers, samples, errors\<close>

text \<open>
  A \<open>Header\<close> is the Go struct with its two fields. A \<open>Sample\<close> carries the
  timestamp as the signed 64-bit value of \<open>Time.UnixNano()\<close>, the tag map as an
  association list (a nil map is the empty list), and the value vector. The element type
  of the value vector is a parameter: the marshalling code only moves the bit pattern of
  a \<open>float64\<close> (\<open>math.Float64bits\<close>), so there it is \<open>64 word\<close>.
  A Go pointer that may be nil is an \<open>option\<close>.
\<close>

type_synonym byte = "8 word"

record Header =
  Fields :: "string list"
  HasTags :: bool

type_synonym tags = "(string \<times> string) list"

record 'v Sample =
  Time :: "64 word"
  Tags :: tags
  Values :: "'v list"

text \<open>\<open>sample.Tag(name)\<close>: the lookup in a Go map, the empty string for a missing key.\<close>

definition Tag :: "'v Sample \<Rightarrow> string \<Rightarrow> string" where
  "Tag s name = (case map_of (Tags s) name of None \<Rightarrow> [] | Some v \<Rightarrow> v)"

text \<open>Every error value the modelled functions build, one constructor per message.\<close>

datatype error =
    EOF
  | ErrUnexpectedEOF
  | DataSliceNotLongEnough nat nat
  | NoTagSeparator
  | DataSliceWrongLen nat nat
  | BadTag string
  | StepError string
  | PreviousAutoFlush error
  | NilHeaderReturned nat
  | ErrorFlushingBatch error
  | InvalidUrlEndpoint string
  | MultipleFormats string
  | MultipleTransports string
  | StdTransportTarget string string
  | CannotDefineFormat string
  | EmptyEndpoint
  | NotFilenameNotTcp string
  | FormatCannotBeSpecified string
  | UnknownInputEndpointType string
  | ErrorCreatingInput string error
  | OnlyOneDataSource string string
  | MultipleCustomSources string
  | StdinMultipleTimes
  | ListenMultiplePorts
  | UnknownEndpointType string
  | AlreadyStopped string
  | ValueCountMismatch nat nat
  | DialFailed string

text \<open>
  A run-time panic of the Go program, kept apart from returned errors. \<open>MatrixShape\<close> is
  the panic of the matrix library when the dimensions of a product do not fit.
\<close>

datatype panic = NilDereference | IndexOutOfRange | TypeAssertion | MatrixShape

section \<open>Batch processor (package pipeline)\<close>

text \<open>
  A batch step is \<open>ProcessBatch(header, samples)\<close>, returning the three Go results.
  The log lines written inside the loop of \<open>executeSteps\<close> are the observable record
  of which steps ran; the other log lines of the processor are left out.
\<close>

type_synonym 'v BatchProcessingStep =
  "Header \<Rightarrow> 'v Sample list \<Rightarrow> Header option \<times> 'v Sample list \<times> error option"

datatype log_entry =
    Executing nat nat
  | CannotExecuteRemaining nat

datatype 'v steps_result =
    StepsPanic panic
  | StepsFailed error
  | StepsDone "'v Sample list" "Header option"

text \<open>
  The loop of \<open>executeSteps\<close>, with \<open>i\<close> the index of the step at the head of the
  list. Both branches of the loop body read \<open>header.Fields\<close> for the log line, so a nil
  header at the top of an iteration is a nil dereference.
\<close>

fun executeSteps_loop ::
  "nat \<Rightarrow> 'v BatchProcessingStep list \<Rightarrow> 'v Sample list \<Rightarrow> Header option
   \<Rightarrow> 'v steps_result \<times> log_entry list" where
  "executeSteps_loop i [] samples header = (StepsDone samples header, [])"
| "executeSteps_loop i (step # rest) samples header =
     (case header of
        None \<Rightarrow> (StepsPanic NilDereference, [])
      | Some h \<Rightarrow>
          if length samples = 0 then
            (StepsDone samples header, [CannotExecuteRemaining (length (step # rest))])
          else
            (case step h samples of
               (header', samples', Some err) \<Rightarrow>
                 (StepsFailed err, [Executing i (length samples)])
             | (header', samples', None) \<Rightarrow>
                 (case executeSteps_loop (Suc i) rest samples' header' of
                    (r, lg) \<Rightarrow> (r, Executing i (length samples) # lg))))"

definition executeSteps ::
  "'v BatchProcessingStep list \<Rightarrow> 'v Sample list \<Rightarrow> Header option
   \<Rightarrow> 'v steps_result \<times> log_entry list" where
  "executeSteps Steps samples header = executeSteps_loop 0 Steps samples header"

text \<open>The indices of the steps whose \<open>ProcessBatch\<close> was called, read off the log.\<close>

fun executed_steps :: "log_entry list \<Rightarrow> nat list" where
  "executed_steps [] = []"
| "executed_steps (Executing i n # lg) = i # executed_steps lg"
| "executed_steps (CannotExecuteRemaining k # lg) = executed_steps lg"

text \<open>
  The processor's state. \<open>lastSample\<close> is \<open>None\<close> for the zero time;
  \<open>FlushTimeout\<close> and the clock count nanoseconds. \<open>emitted\<close> collects what
  \<open>NoopProcessor.Sample\<close> handed downstream, \<open>logged\<close> the step log lines.
\<close>

record 'v BatchProcessor =
  checker_LastHeader :: "Header option"
  samples :: "'v Sample list"
  shutdown :: bool
  Steps :: "'v BatchProcessingStep list"
  FlushTimeout :: int
  lastAutoFlushError :: "error option"
  lastSample :: "int option"
  FlushTag :: string
  lastFlushTag :: string
  flushHeader :: "Header option"
  flushError :: "error option"
  emitted :: "('v Sample \<times> Header) list"
  logged :: "log_entry list"

text \<open>
  The forwarding loop at the end of \<open>executeFlush\<close>: the downstream stage is the
  parameter \<open>sink\<close>, which may refuse a sample.
\<close>

fun forward_samples ::
  "('v Sample \<Rightarrow> Header \<Rightarrow> error option) \<Rightarrow> Header \<Rightarrow> 'v Sample list
   \<Rightarrow> ('v Sample \<times> Header) list \<Rightarrow> error option \<times> ('v Sample \<times> Header) list" where
  "forward_samples sink h [] out = (None, out)"
| "forward_samples sink h (s # ss) out =
     (case sink s h of
        Some err \<Rightarrow> (Some (ErrorFlushingBatch err), out)
      | None \<Rightarrow> forward_samples sink h ss (out @ [(s, h)]))"

datatype 'a outcome = Panicked panic | Returned 'a

definition executeFlush ::
  "('v Sample \<Rightarrow> Header \<Rightarrow> error option) \<Rightarrow> 'v BatchProcessor \<Rightarrow> Header option
   \<Rightarrow> (error option \<times> 'v BatchProcessor) outcome" where
  "executeFlush sink p header =
     (let smpls = samples p in
      if length smpls = 0 \<or> header = None then Returned (None, p)
      else
        let p1 = p\<lparr>samples := []\<rparr> in
        (case executeSteps (Steps p1) smpls header of
           (StepsPanic pn, lg) \<Rightarrow> Panicked pn
         | (StepsFailed err, lg) \<Rightarrow> Returned (Some err, p1\<lparr>logged := logged p1 @ lg\<rparr>)
         | (StepsDone smpls' header', lg) \<Rightarrow>
             (case header' of
                None \<Rightarrow>
                  Returned (Some (NilHeaderReturned (length smpls')), p1\<lparr>logged := logged p1 @ lg\<rparr>)
              | Some h' \<Rightarrow>
                  (case forward_samples sink h' smpls' (emitted p1) of
                     (err, out) \<Rightarrow>
                       Returned (err, p1\<lparr>logged := logged p1 @ lg, emitted := out\<rparr>)))))"







section \<open>Binary marshaller (package sample)\<close>

definition timeBytes :: nat where
  "timeBytes = 8"

definition valBytes :: nat where
  "valBytes = 8"

definition binary_separator :: byte where
  "binary_separator = 10"

text \<open>
  \<open>binary.BigEndian.PutUint64\<close> and \<open>binary.BigEndian.Uint64\<close> of the standard
  library: the most significant byte first.
\<close>

definition PutUint64 :: "64 word \<Rightarrow> byte list" where
  "PutUint64 v =
     [ucast (drop_bit 56 v), ucast (drop_bit 48 v), ucast (drop_bit 40 v),
      ucast (drop_bit 32 v), ucast (drop_bit 24 v), ucast (drop_bit 16 v),
      ucast (drop_bit 8 v), ucast v]"

definition Uint64 :: "byte list \<Rightarrow> 64 word" where
  "Uint64 b =
     ucast (b ! 7) OR push_bit 8 (ucast (b ! 6)) OR push_bit 16 (ucast (b ! 5))
     OR push_bit 24 (ucast (b ! 4)) OR push_bit 32 (ucast (b ! 3))
     OR push_bit 40 (ucast (b ! 2)) OR push_bit 48 (ucast (b ! 1))
     OR push_bit 56 (ucast (b ! 0))"

text \<open>
  \<open>WriteSample\<close> writing into an in-memory buffer (\<open>bytes.Buffer\<close>, as the
  repository's marshaller test does), whose \<open>Write\<close> never fails: the result is the
  byte sequence written. The sample's \<open>Time\<close> is already the value of \<open>UnixNano()\<close>
  and a value is its \<open>math.Float64bits\<close> pattern. \<open>TagString\<close> belongs to the sample
  type, whose source file is not among the sources; it is the parameter \<open>tagString\<close>,
  giving the bytes of the string it returns.
\<close>

definition WriteSample ::
  "(tags \<Rightarrow> byte list) \<Rightarrow> 64 word Sample \<Rightarrow> Header \<Rightarrow> byte list" where
  "WriteSample tagString sample header =
     PutUint64 (Time sample)
     @ (if HasTags header then tagString (Tags sample) @ [binary_separator] else [])
     @ concat (map PutUint64 (Values sample))"

text \<open>
  A \<open>bufio.Reader\<close> over a finite input is the list of bytes not yet consumed.
  \<open>io.ReadFull\<close> fills a zeroed buffer of \<open>n\<close> bytes: short input leaves the tail of
  the buffer zero and gives \<open>EOF\<close> (nothing read) or \<open>ErrUnexpectedEOF\<close>.
  \<open>ReadBytes\<close> reads up to and including the first delimiter, or to the end with
  \<open>EOF\<close>. \<open>bytes.IndexByte\<close> gives \<open>-1\<close> when the byte does not occur.
\<close>

definition ReadFull :: "byte list \<Rightarrow> nat \<Rightarrow> byte list \<times> error option \<times> byte list" where
  "ReadFull input n =
     (if n \<le> length input then (take n input, None, drop n input)
      else (input @ replicate (n - length input) 0,
            Some (if input = [] then EOF else ErrUnexpectedEOF), []))"

definition IndexByte :: "'a list \<Rightarrow> 'a \<Rightarrow> int" where
  "IndexByte b c = (if c \<in> set b then int (length (takeWhile (\<lambda>x. x \<noteq> c) b)) else - 1)"

definition ReadBytes :: "byte list \<Rightarrow> byte \<Rightarrow> byte list \<times> error option \<times> byte list" where
  "ReadBytes input delim =
     (if IndexByte input delim \<ge> 0
      then (take (nat (IndexByte input delim) + 1) input, None,
            drop (nat (IndexByte input delim) + 1) input)
      else (input, Some EOF, []))"

definition unexpectedEOF :: "error option \<Rightarrow> error option" where
  "unexpectedEOF err = (if err = Some EOF then Some ErrUnexpectedEOF else err)"

text \<open>
  \<open>ReadSampleData\<close> returns the frame, the error and the reader's remaining input.
  A nil slice is the empty list.
\<close>

definition ReadSampleData ::
  "Header \<Rightarrow> byte list \<Rightarrow> (byte list \<times> error option) \<times> byte list" where
  "ReadSampleData header input =
     (let valuelen = valBytes * length (Fields header);
          minlen = timeBytes + valuelen
      in case ReadFull input minlen of
           (data, Some err, input1) \<Rightarrow> (([], Some err), input1)
         | (data, None, input1) \<Rightarrow>
             if \<not> HasTags header then ((data, None), input1)
             else
               (let index = IndexByte (drop timeBytes data) binary_separator in
                if index \<ge> 0 then
                  (case ReadFull input1 (nat index + 1) of
                     (tagEnd, err, input2) \<Rightarrow> ((data @ tagEnd, unexpectedEOF err), input2))
                else
                  (case ReadBytes input1 binary_separator of
                     (tagRest, Some err, input2) \<Rightarrow> (([], unexpectedEOF (Some err)), input2)
                   | (tagRest, None, input2) \<Rightarrow>
                       (case ReadFull input2 valuelen of
                          (vals, Some err, input3) \<Rightarrow> (([], unexpectedEOF (Some err)), input3)
                        | (vals, None, input3) \<Rightarrow>
                            ((data @ tagRest @ vals, None), input3)))))"

text \<open>
  The value loop of \<open>ParseSample\<close>: \<open>n\<close> counts the fields still to read. Slicing
  eight bytes off a shorter slice is the run-time panic.
\<close>

fun parse_values :: "nat \<Rightarrow> byte list \<Rightarrow> 64 word list \<Rightarrow> (64 word list) outcome" where
  "parse_values 0 data vals = Returned vals"
| "parse_values (Suc n) data vals =
     (if length data < valBytes then Panicked IndexOutOfRange
      else parse_values n (drop valBytes data) (vals @ [Uint64 (take valBytes data)]))"

text \<open>
  \<open>ParseSample\<close> fills the zero sample and returns it with the error. The method
  \<open>ParseTagString\<close> of the sample type is the parameter \<open>parseTagString\<close>, from the
  bytes of its argument to an error or the tag map it stores.
\<close>

definition ParseSample ::
  "(byte list \<Rightarrow> error + tags) \<Rightarrow> Header \<Rightarrow> byte list \<Rightarrow> (64 word Sample \<times> error option) outcome" where
  "ParseSample parseTagString header data0 =
     (let sample0 = \<lparr>Time = 0, Tags = [], Values = []\<rparr>;
          size = timeBytes + length (Fields header) * valBytes
      in if length data0 < size then
           Returned (sample0, Some (DataSliceNotLongEnough (length data0) size))
         else
           (let timeVal = Uint64 (take timeBytes data0);
                data1 = drop timeBytes data0;
                sample1 = sample0\<lparr>Time := timeVal\<rparr>
            in if HasTags header then
                 (let index = IndexByte data1 binary_separator in
                  if index < 0 then Returned (sample1, Some NoTagSeparator)
                  else if length data1 \<noteq> nat index + 1 + length (Fields header) * valBytes then
                    Returned (sample1,
                      Some (DataSliceWrongLen (length data1)
                              (nat index + 1 + length (Fields header) * valBytes)))
                  else
                    (case parseTagString (take (nat index) data1) of
                       Inl err \<Rightarrow> Returned (sample1, Some err)
                     | Inr tgs \<Rightarrow>
                         (case parse_values (length (Fields header))
                                  (drop (nat index + 1) data1) [] of
                            Panicked pn \<Rightarrow> Panicked pn
                          | Returned vals \<Rightarrow>
                              Returned (sample1\<lparr>Tags := tgs, Values := vals\<rparr>, None))))
               else
                 (case parse_values (length (Fields header)) data1 [] of
                    Panicked pn \<Rightarrow> Panicked pn
                  | Returned vals \<Rightarrow> Returned (sample1\<lparr>Values := vals\<rparr>, None))))"

text \<open>
  Modelled from the spec: the sample type's \<open>TagString\<close> and \<open>ParseTagString\<close> (their
  source file is not among the sources). The spec: "Tag serialisation uses the form
  \<open>k1=v1 k2=v2 \<dots>\<close> with keys in ascending lexical order. Parsing is the inverse and
  must accept no trailing whitespace. Empty tag string is legal and represents zero
  tags." They serve as one instance of the two parameters of the marshaller.
\<close>

fun join_with :: "char \<Rightarrow> string list \<Rightarrow> string" where
  "join_with c [] = []"
| "join_with c [x] = x"
| "join_with c (x # y # ys) = x @ c # join_with c (y # ys)"

definition TagString :: "tags \<Rightarrow> string" where
  "TagString tgs = join_with CHR '' '' (map (\<lambda>(k, v). k @ CHR ''='' # v) (sort_key fst tgs))"

fun split_on :: "char \<Rightarrow> string \<Rightarrow> string list" where
  "split_on c [] = [[]]"
| "split_on c (x # xs) =
     (if x = c then [] # split_on c xs
      else (case split_on c xs of [] \<Rightarrow> [[x]] | w # ws \<Rightarrow> (x # w) # ws))"

fun parse_tag_pairs :: "string list \<Rightarrow> error + tags" where
  "parse_tag_pairs [] = Inr []"
| "parse_tag_pairs (p # ps) =
     (if CHR ''='' \<notin> set p then Inl (BadTag p)
      else (case parse_tag_pairs ps of
              Inl err \<Rightarrow> Inl err
            | Inr tgs \<Rightarrow>
                Inr ((takeWhile (\<lambda>x. x \<noteq> CHR ''='') p,
                      drop 1 (dropWhile (\<lambda>x. x \<noteq> CHR ''='') p)) # tgs)))"

definition ParseTagString :: "string \<Rightarrow> error + tags" where
  "ParseTagString str = (if str = [] then Inr [] else parse_tag_pairs (split_on CHR '' '' str))"

text \<open>The conversions \<open>[]byte(str)\<close> and \<open>string(bytes)\<close>.\<close>

definition bytes_of_string :: "string \<Rightarrow> byte list" where
  "bytes_of_string str = map of_char str"

definition string_of_bytes :: "byte list \<Rightarrow> string" where
  "string_of_bytes b = map (\<lambda>x. char_of (unat x)) b"

definition tag_bytes :: "tags \<Rightarrow> byte list" where
  "tag_bytes tgs = bytes_of_string (TagString tgs)"

definition parse_tag_bytes :: "byte list \<Rightarrow> error + tags" where
  "parse_tag_bytes b = ParseTagString (string_of_bytes b)"

section \<open>Endpoint descriptions (package bitflow)\<close>

type_synonym MarshallingFormat = string
type_synonym EndpointType = string

definition UndefinedEndpoint :: EndpointType where "UndefinedEndpoint = []"
definition TcpEndpoint :: EndpointType where "TcpEndpoint = ''tcp''"
definition TcpListenEndpoint :: EndpointType where "TcpListenEndpoint = ''listen''"
definition FileEndpoint :: EndpointType where "FileEndpoint = ''file''"
definition StdEndpoint :: EndpointType where "StdEndpoint = ''std''"

definition UndefinedFormat :: MarshallingFormat where "UndefinedFormat = []"
definition TextFormat :: MarshallingFormat where "TextFormat = ''text''"
definition CsvFormat :: MarshallingFormat where "CsvFormat = ''csv''"
definition BinaryFormat :: MarshallingFormat where "BinaryFormat = ''bin''"

text \<open>The map \<open>allFormatsMap\<close>; a missing key reads as \<open>false\<close>.\<close>

definition allFormatsMap :: "MarshallingFormat \<Rightarrow> bool" where
  "allFormatsMap f = (f = TextFormat \<or> f = CsvFormat \<or> f = BinaryFormat)"

definition stdTransportTarget :: string where "stdTransportTarget = ''-''"

record EndpointDescription =
  Format :: MarshallingFormat
  Type :: EndpointType
  IsCustomType :: bool
  Target :: string

text \<open>
  The data sources \<open>CreateInput\<close> builds, with the targets they are given. The reader
  and the flag values copied into a source play no part in which inputs are accepted
  and are left out.
\<close>

datatype MetricSource =
    ConsoleSource
  | TCPSource "string list"
  | TCPListenerSource string
  | FileSource "string list"
  | CustomSource string

text \<open>
  What the functions read from outside the program: whether \<open>net.LookupPort("tcp", port)\<close>
  succeeds, what \<open>os.Stat\<close> answers, the registry \<open>CustomDataSources\<close>, and the
  constant \<open>ConsoleBoxEndpoint\<close>, whose declaration is not among the sources.
\<close>

datatype stat_result = StatOk | StatPathError "string option" | StatOtherError

record environment =
  LookupPort :: "string \<Rightarrow> bool"
  Stat :: "string \<Rightarrow> stat_result"
  ConsoleBoxEndpoint :: EndpointType
  CustomDataSources :: "EndpointType \<Rightarrow> (string \<Rightarrow> MetricSource option \<times> error option) option"

text \<open>
  The string functions of the standard library that the parser calls:
  \<open>strings.SplitN(s, sep, 2)\<close> cuts at the first occurrence of \<open>sep\<close>,
  \<open>strings.Contains\<close> looks for one, \<open>strings.Split(s, "+")\<close> is \<open>split_on\<close>.
\<close>

fun cut_first :: "string \<Rightarrow> string \<Rightarrow> (string \<times> string) option" where
  "cut_first sep [] = (if sep = [] then Some ([], []) else None)"
| "cut_first sep (x # xs) =
     (if take (length sep) (x # xs) = sep then Some ([], drop (length sep) (x # xs))
      else (case cut_first sep xs of
              None \<Rightarrow> None
            | Some (before, after) \<Rightarrow> Some (x # before, after)))"

definition SplitN2 :: "string \<Rightarrow> string \<Rightarrow> string list" where
  "SplitN2 s sep = (case cut_first sep s of None \<Rightarrow> [s] | Some (before, after) \<Rightarrow> [before, after])"

definition Contains :: "string \<Rightarrow> string \<Rightarrow> bool" where
  "Contains s sep = (cut_first sep s \<noteq> None)"

definition LastIndexByte :: "'a list \<Rightarrow> 'a \<Rightarrow> int" where
  "LastIndexByte b c =
     (if c \<in> set b then int (length b) - 1 - int (length (takeWhile (\<lambda>x. x \<noteq> c) (rev b)))
      else - 1)"

text \<open>
  \<open>net.SplitHostPort\<close> of the standard library. On an error host and port are empty.
\<close>

datatype addr_error =
    MissingPort | TooManyColons | MissingBracket | UnexpectedOpenBracket
  | UnexpectedCloseBracket

definition SplitHostPort_tail ::
  "string \<Rightarrow> nat \<Rightarrow> string \<Rightarrow> nat \<Rightarrow> nat \<Rightarrow> string \<times> string \<times> addr_error option" where
  "SplitHostPort_tail hostport i host j k =
     (if IndexByte (drop j hostport) CHR ''['' \<ge> 0 then ([], [], Some UnexpectedOpenBracket)
      else if IndexByte (drop k hostport) CHR '']'' \<ge> 0 then ([], [], Some UnexpectedCloseBracket)
      else (host, drop (i + 1) hostport, None))"

definition SplitHostPort :: "string \<Rightarrow> string \<times> string \<times> addr_error option" where
  "SplitHostPort hostport =
     (let i = LastIndexByte hostport CHR '':'' in
      if i < 0 then ([], [], Some MissingPort)
      else if hostport ! 0 = CHR ''['' then
        (let end = IndexByte hostport CHR '']'' in
         if end < 0 then ([], [], Some MissingBracket)
         else if end + 1 = int (length hostport) then ([], [], Some MissingPort)
         else if end + 1 = i then
           SplitHostPort_tail hostport (nat i) (take (nat end - 1) (drop 1 hostport)) 1 (nat end + 1)
         else if hostport ! (nat end + 1) = CHR '':'' then ([], [], Some TooManyColons)
         else ([], [], Some MissingPort))
      else if IndexByte (take (nat i) hostport) CHR '':'' \<ge> 0 then ([], [], Some TooManyColons)
      else SplitHostPort_tail hostport (nat i) (take (nat i) hostport) 0 0)"

text \<open>
  \<open>IsValidFilename\<close>: only a \<open>*os.PathError\<close> whose inner error reads
  "invalid argument" makes a path invalid.
\<close>

definition IsValidFilename :: "environment \<Rightarrow> string \<Rightarrow> bool" where
  "IsValidFilename env path =
     (case Stat env path of
        StatPathError (Some msg) \<Rightarrow> msg \<noteq> ''invalid argument''
      | _ \<Rightarrow> True)"

definition GuessEndpointType :: "environment \<Rightarrow> string \<Rightarrow> EndpointType \<times> error option" where
  "GuessEndpointType env target =
     (if target = [] then (UndefinedEndpoint, Some EmptyEndpoint)
      else if target = stdTransportTarget then (StdEndpoint, None)
      else
        (case SplitHostPort target of
           (host, port, err1) \<Rightarrow>
             if err1 = None \<and> LookupPort env port then
               (if host = [] then (TcpListenEndpoint, None) else (TcpEndpoint, None))
             else if Contains target '':'' \<or> \<not> IsValidFilename env target then
               (UndefinedEndpoint, Some (NotFilenameNotTcp target))
             else (FileEndpoint, None)))"

definition GuessEndpointDescription ::
  "environment \<Rightarrow> string \<Rightarrow> EndpointDescription \<times> error option" where
  "GuessEndpointDescription env endpoint =
     (case GuessEndpointType env endpoint of
        (typ, err) \<Rightarrow>
          (\<lparr>Format = UndefinedFormat, Type = typ, IsCustomType = False, Target = endpoint\<rparr>, err))"

text \<open>
  The loop of \<open>ParseUrlEndpointDescription\<close> over the parts; an error returns at once
  with the description as filled so far.
\<close>

fun parse_parts ::
  "string \<Rightarrow> string \<Rightarrow> string list \<Rightarrow> EndpointDescription
   \<Rightarrow> EndpointDescription \<times> error option" where
  "parse_parts endpoint target [] res = (res, None)"
| "parse_parts endpoint target (part # parts) res =
     (if allFormatsMap part then
        (if Format res \<noteq> [] then (res, Some (MultipleFormats endpoint))
         else parse_parts endpoint target parts (res\<lparr>Format := part\<rparr>))
      else if Type res \<noteq> UndefinedEndpoint then (res, Some (MultipleTransports endpoint))
      else if part = TcpEndpoint then
        parse_parts endpoint target parts (res\<lparr>Type := TcpEndpoint\<rparr>)
      else if part = TcpListenEndpoint then
        parse_parts endpoint target parts (res\<lparr>Type := TcpListenEndpoint\<rparr>)
      else if part = FileEndpoint then
        parse_parts endpoint target parts (res\<lparr>Type := FileEndpoint\<rparr>)
      else if part = StdEndpoint then
        (if target \<noteq> stdTransportTarget
         then (res, Some (StdTransportTarget part stdTransportTarget))
         else parse_parts endpoint target parts (res\<lparr>Type := StdEndpoint\<rparr>))
      else parse_parts endpoint target parts (res\<lparr>IsCustomType := True, Type := part\<rparr>))"

definition empty_description :: EndpointDescription where
  "empty_description =
     \<lparr>Format = UndefinedFormat, Type = UndefinedEndpoint, IsCustomType = False, Target = []\<rparr>"

definition ParseUrlEndpointDescription ::
  "environment \<Rightarrow> string \<Rightarrow> EndpointDescription \<times> error option" where
  "ParseUrlEndpointDescription env endpoint =
     (let urlParts = SplitN2 endpoint ''://'' in
      if length urlParts \<noteq> 2 \<or> urlParts ! 0 = [] \<or> urlParts ! 1 = [] then
        (empty_description, Some (InvalidUrlEndpoint endpoint))
      else
        (let target = urlParts ! 1 in
         case parse_parts endpoint target (split_on CHR ''+'' (urlParts ! 0))
                (empty_description\<lparr>Target := target\<rparr>) of
           (res, Some err) \<Rightarrow> (res, Some err)
         | (res, None) \<Rightarrow>
             (let guessed =
                    (if Type res = UndefinedEndpoint
                     then (case GuessEndpointType env target of
                             (typ, guessErr) \<Rightarrow> (res\<lparr>Type := typ\<rparr>, guessErr))
                     else (res, None))
              in if IsCustomType (fst guessed) \<and> Format (fst guessed) \<noteq> UndefinedFormat
                 then (fst guessed, Some (CannotDefineFormat (Type (fst guessed))))
                 else guessed)))"

definition ParseEndpointDescription ::
  "environment \<Rightarrow> string \<Rightarrow> bool \<Rightarrow> EndpointDescription \<times> error option" where
  "ParseEndpointDescription env endpoint isOutput =
     (if Contains endpoint ''://'' then ParseUrlEndpointDescription env endpoint
      else
        (case GuessEndpointDescription env endpoint of
           (guessed, err) \<Rightarrow>
             if err = None \<and> isOutput \<and> Target guessed = stdTransportTarget
                \<and> Format guessed = UndefinedFormat
             then (guessed\<lparr>Type := ConsoleBoxEndpoint env, IsCustomType := True\<rparr>, err)
             else (guessed, err)))"

text \<open>
  \<open>EndpointDescription.Unmarshaller\<close> returns nil for every description: the sources
  detect the format themselves.
\<close>

datatype Unmarshaller_kind = TextUnmarshaller | CsvUnmarshaller | BinaryUnmarshaller

definition Unmarshaller :: "EndpointDescription \<Rightarrow> Unmarshaller_kind option" where
  "Unmarshaller e = None"

text \<open>
  The loop of \<open>CreateInput\<close> with its two local variables \<open>result\<close> and
  \<open>inputType\<close>. A failed type assertion \<open>result.(*TCPSource)\<close> is a panic.
\<close>

fun CreateInput_loop ::
  "environment \<Rightarrow> MetricSource option \<Rightarrow> EndpointType \<Rightarrow> string list
   \<Rightarrow> (error + MetricSource option) outcome" where
  "CreateInput_loop env result inputType [] = Returned (Inr result)"
| "CreateInput_loop env result inputType (input # inputs) =
     (case ParseEndpointDescription env input False of
        (endpoint, Some err) \<Rightarrow> Returned (Inl err)
      | (endpoint, None) \<Rightarrow>
          if Format endpoint \<noteq> UndefinedFormat then
            Returned (Inl (FormatCannotBeSpecified input))
          else
            (case result of
               None \<Rightarrow>
                 if Type endpoint = StdEndpoint then
                   CreateInput_loop env (Some ConsoleSource) (Type endpoint) inputs
                 else if Type endpoint = TcpEndpoint then
                   CreateInput_loop env (Some (TCPSource [Target endpoint])) (Type endpoint) inputs
                 else if Type endpoint = TcpListenEndpoint then
                   CreateInput_loop env (Some (TCPListenerSource (Target endpoint)))
                     (Type endpoint) inputs
                 else if Type endpoint = FileEndpoint then
                   CreateInput_loop env (Some (FileSource [Target endpoint])) (Type endpoint) inputs
                 else
                   (case CustomDataSources env (Type endpoint) of
                      None \<Rightarrow> Returned (Inl (UnknownInputEndpointType (Type endpoint)))
                    | Some factory \<Rightarrow>
                        if IsCustomType endpoint then
                          (case factory (Target endpoint) of
                             (src, Some factoryErr) \<Rightarrow>
                               Returned (Inl (ErrorCreatingInput (Type endpoint) factoryErr))
                           | (src, None) \<Rightarrow> CreateInput_loop env src (Type endpoint) inputs)
                        else Returned (Inl (UnknownInputEndpointType (Type endpoint))))
             | Some source \<Rightarrow>
                 if inputType \<noteq> Type endpoint then
                   Returned (Inl (OnlyOneDataSource inputType (Type endpoint)))
                 else if IsCustomType endpoint then
                   Returned (Inl (MultipleCustomSources inputType))
                 else if Type endpoint = StdEndpoint then Returned (Inl StdinMultipleTimes)
                 else if Type endpoint = TcpListenEndpoint then Returned (Inl ListenMultiplePorts)
                 else if Type endpoint = TcpEndpoint then
                   (case source of
                      TCPSource addrs \<Rightarrow>
                        CreateInput_loop env (Some (TCPSource (addrs @ [Target endpoint])))
                          inputType inputs
                    | _ \<Rightarrow> Panicked TypeAssertion)
                 else if Type endpoint = FileEndpoint then
                   (case source of
                      FileSource names \<Rightarrow>
                        CreateInput_loop env (Some (FileSource (names @ [Target endpoint])))
                          inputType inputs
                    | _ \<Rightarrow> Panicked TypeAssertion)
                 else Returned (Inl (UnknownEndpointType (Type endpoint)))))"

definition CreateInput ::
  "environment \<Rightarrow> string list \<Rightarrow> (error + MetricSource option) outcome" where
  "CreateInput env inputs = CreateInput_loop env None UndefinedEndpoint inputs"

text \<open>
  The transports the parser recognises by name, and the parts it takes for a transport
  at all: a part that is no format reaches the \<open>else\<close> branch of the loop and is stored
  as the type, one of the four names or, by the \<open>default\<close> case, a custom one. The
  empty part is stored as well, but is the undefined type and so names none.
\<close>

definition is_transport :: "string \<Rightarrow> bool" where
  "is_transport part =
     (part = TcpEndpoint \<or> part = TcpListenEndpoint \<or> part = FileEndpoint \<or> part = StdEndpoint)"

definition names_transport :: "string \<Rightarrow> bool" where
  "names_transport part = (part \<noteq> UndefinedEndpoint \<and> \<not> allFormatsMap part)"

section \<open>Batch sorter (package steps)\<close>

record SampleSorter =
  sorter_Tags :: "string list"

text \<open>
  \<open>SampleSlice.Less\<close> on two samples of the slice. Go compares strings byte by byte,
  which is the lexicographic order on \<open>string\<close>; \<open>Time.Before\<close> compares the
  instants, here the signed nanosecond values.
\<close>

fun Less_tags :: "string list \<Rightarrow> 'v Sample \<Rightarrow> 'v Sample \<Rightarrow> bool" where
  "Less_tags [] a b = (sint (Time a) < sint (Time b))"
| "Less_tags (tag # tgs) a b =
     (if Tag a tag = Tag b tag then Less_tags tgs a b else Tag a tag < Tag b tag)"

definition Less :: "SampleSorter \<Rightarrow> 'v Sample \<Rightarrow> 'v Sample \<Rightarrow> bool" where
  "Less sorter a b = Less_tags (sorter_Tags sorter) a b"

text \<open>
  \<open>sort.Sort\<close> of the standard library sorts the slice in place by calls of \<open>Less\<close>
  and \<open>Swap\<close>; it is not stable and its algorithm is not part of the repository. It
  is the parameter \<open>srt\<close> of \<open>ProcessBatch\<close>, from \<open>Less\<close> and the slice to the
  sorted slice.
\<close>

definition ProcessBatch_sorter ::
  "(('v Sample \<Rightarrow> 'v Sample \<Rightarrow> bool) \<Rightarrow> 'v Sample list \<Rightarrow> 'v Sample list)
   \<Rightarrow> SampleSorter \<Rightarrow> Header option \<Rightarrow> 'v Sample list
   \<Rightarrow> Header option \<times> 'v Sample list \<times> error option" where
  "ProcessBatch_sorter srt sorter header smpls = (header, srt (Less sorter) smpls, None)"

text \<open>
  What \<open>sort.Sort\<close> promises for a \<open>Less\<close> that is a strict weak order: the result is
  a permutation of the slice in which no element is \<open>Less\<close> than one before it.
  Insertion sort is one sort that keeps the promise.
\<close>

definition sorts_by ::
  "('a \<Rightarrow> 'a \<Rightarrow> bool) \<Rightarrow> 'a list \<Rightarrow> 'a list \<Rightarrow> bool" where
  "sorts_by lt xs ys = (mset ys = mset xs \<and> sorted_wrt (\<lambda>a b. \<not> lt b a) ys)"

fun insert_by :: "('a \<Rightarrow> 'a \<Rightarrow> bool) \<Rightarrow> 'a \<Rightarrow> 'a list \<Rightarrow> 'a list" where
  "insert_by lt x [] = [x]"
| "insert_by lt x (y # ys) = (if lt x y then x # y # ys else y # insert_by lt x ys)"

definition insertion_sort :: "('a \<Rightarrow> 'a \<Rightarrow> bool) \<Rightarrow> 'a list \<Rightarrow> 'a list" where
  "insertion_sort lt xs = foldr (insert_by lt) xs []"

text \<open>
  The key a sample is ordered by: the values of the listed tags in order, then the
  timestamp, compared lexicographically.
\<close>

definition sample_key :: "string list \<Rightarrow> 'v Sample \<Rightarrow> string list \<times> int" where
  "sample_key tgs s = (map (Tag s) tgs, sint (Time s))"

section \<open>TCP sink (package sample)\<close>

definition tcp_sample_buffer :: nat where
  "tcp_sample_buffer = 50"

text \<open>
  A write connection: whether its \<open>conn\<close> is non-nil, the remote address, and the
  buffered channel \<open>samples\<close> (\<open>None\<close> once it is nil).
\<close>

record 'v tcpWriteConn =
  conn_open :: bool
  remote :: string
  samples_chan :: "'v Sample list option"

text \<open>
  The sink after \<open>Start\<close>: \<open>stopped\<close> is the flag of the one-shot condition
  (\<open>golib.OneshotCondition\<close>), whose \<open>Enable\<close> runs its argument once and sets the
  flag, and whose \<open>IfElseEnabled\<close> runs one of two functions by the flag. \<open>dialed\<close>
  records every endpoint handed to \<open>net.DialTCP\<close> and \<open>closed_conns\<close> every write
  connection the sink has closed and dropped; the network is the parameter \<open>dial\<close>,
  from the endpoint to an error or the remote address.
\<close>

record 'v TCPSink =
  Endpoint :: string
  LastHeader :: Header
  conn :: "'v tcpWriteConn option"
  stopped :: bool
  dialed :: "string list"
  closed_conns :: "'v tcpWriteConn list"

definition conn_err :: "'v tcpWriteConn \<Rightarrow> 'v tcpWriteConn" where
  "conn_err c = (if conn_open c then c\<lparr>conn_open := False\<rparr> else c)"

definition conn_Close :: "'v tcpWriteConn option \<Rightarrow> 'v tcpWriteConn option" where
  "conn_Close c =
     (case c of
        None \<Rightarrow> None
      | Some w \<Rightarrow>
          (let w1 = conn_err w in
           Some (if samples_chan w1 \<noteq> None then w1\<lparr>samples_chan := None\<rparr> else w1)))"

definition Running :: "'v tcpWriteConn option \<Rightarrow> bool" where
  "Running c = (case c of None \<Rightarrow> False | Some w \<Rightarrow> conn_open w)"

definition closeConnection :: "'v TCPSink \<Rightarrow> 'v TCPSink" where
  "closeConnection sink =
     sink\<lparr>closed_conns := closed_conns sink @ (case conn_Close (conn sink) of None \<Rightarrow> [] | Some w \<Rightarrow> [w]),
          conn := None\<rparr>"

definition Close_sink :: "'v TCPSink \<Rightarrow> 'v TCPSink" where
  "Close_sink sink =
     (if stopped sink then sink else (closeConnection sink)\<lparr>stopped := True\<rparr>)"

definition assertConnection ::
  "(string \<Rightarrow> error + string) \<Rightarrow> 'v TCPSink \<Rightarrow> error option \<times> 'v TCPSink" where
  "assertConnection dial sink =
     (if conn sink = None then
        (case dial (Endpoint sink) of
           Inl err \<Rightarrow> (Some err, sink\<lparr>dialed := dialed sink @ [Endpoint sink]\<rparr>)
         | Inr addr \<Rightarrow>
             (None,
              sink\<lparr>dialed := dialed sink @ [Endpoint sink],
                   conn := Some \<lparr>conn_open = True, remote = addr, samples_chan = Some []\<rparr>\<rparr>))
      else (None, sink))"

definition Header_sink ::
  "(string \<Rightarrow> error + string) \<Rightarrow> 'v TCPSink \<Rightarrow> Header \<Rightarrow> error option \<times> 'v TCPSink" where
  "Header_sink dial sink header =
     (if stopped sink then (Some (AlreadyStopped (Endpoint sink)), sink)
      else assertConnection dial ((closeConnection sink)\<lparr>LastHeader := header\<rparr>))"

text \<open>
  Modelled from the spec: \<open>Sample.Check\<close> (the sample type's source file is not among
  the sources). The spec: "check against header (fails if value count mismatches)".
\<close>

definition Check :: "'v Sample \<Rightarrow> Header \<Rightarrow> error option" where
  "Check s header =
     (if length (Values s) \<noteq> length (Fields header)
      then Some (ValueCountMismatch (length (Values s)) (length (Fields header)))
      else None)"

text \<open>
  \<open>Sample\<close> of the sink. The send on the channel blocks while the buffer is full or
  the channel is nil; a call that does not return is \<open>None\<close>.
\<close>

definition Sample_sink ::
  "(string \<Rightarrow> error + string) \<Rightarrow> 'v TCPSink \<Rightarrow> 'v Sample \<Rightarrow> Header
   \<Rightarrow> (error option \<times> 'v TCPSink) option" where
  "Sample_sink dial sink sample header =
     (if stopped sink then Some (Some (AlreadyStopped (Endpoint sink)), sink)
      else
        (case Check sample header of
           Some err \<Rightarrow> Some (Some err, sink)
         | None \<Rightarrow>
             (let sink1 = (if \<not> Running (conn sink) then closeConnection sink else sink) in
              case assertConnection dial sink1 of
                (Some err, sink2) \<Rightarrow> Some (Some err, sink2)
              | (None, sink2) \<Rightarrow>
                  (case conn sink2 of
                     None \<Rightarrow> None
                   | Some w \<Rightarrow>
                       (case samples_chan w of
                          None \<Rightarrow> None
                        | Some queue \<Rightarrow>
                            if length queue \<ge> tcp_sample_buffer then None
                            else Some (None,
                                   sink2\<lparr>conn := Some (w\<lparr>samples_chan := Some (queue @ [sample])\<rparr>)\<rparr>))))))"

text \<open>A sequence of calls made on the sink, with the errors they return.\<close>

datatype 'v sink_call = CallSample "'v Sample" Header | CallHeader Header

fun run_calls ::
  "(string \<Rightarrow> error + string) \<Rightarrow> 'v TCPSink \<Rightarrow> 'v sink_call list
   \<Rightarrow> (error option list \<times> 'v TCPSink) option" where
  "run_calls dial sink [] = Some ([], sink)"
| "run_calls dial sink (CallSample s h # calls) =
     (case Sample_sink dial sink s h of
        None \<Rightarrow> None
      | Some (err, sink') \<Rightarrow>
          (case run_calls dial sink' calls of
             None \<Rightarrow> None
           | Some (errs, sink'') \<Rightarrow> Some (err # errs, sink'')))"
| "run_calls dial sink (CallHeader h # calls) =
     (case Header_sink dial sink h of
        (err, sink') \<Rightarrow>
          (case run_calls dial sink' calls of
             None \<Rightarrow> None
           | Some (errs, sink'') \<Rightarrow> Some (err # errs, sink'')))"

section \<open>PCA projection (package analysis)\<close>

text \<open>
  Values are real numbers here. \<open>SampleToVector\<close> and \<open>SetSampleValues\<close> take a
  \<open>*Sample\<close>; reading a field through a nil pointer is the nil-dereference panic.
\<close>

definition SampleToVector :: "real Sample option \<Rightarrow> (real list) outcome" where
  "SampleToVector sample =
     (case sample of
        None \<Rightarrow> Panicked NilDereference
      | Some s \<Rightarrow> Returned (map (\<lambda>val. val) (Values s)))"

text \<open>The assignment loop of \<open>SetSampleValues\<close> over the indices of \<open>values\<close>.\<close>

fun assign_values :: "nat \<Rightarrow> real list \<Rightarrow> real list \<Rightarrow> real list" where
  "assign_values i [] target = target"
| "assign_values i (val # vals) target = assign_values (Suc i) vals (target[i := val])"

definition SetSampleValues :: "real Sample option \<Rightarrow> real list \<Rightarrow> (real Sample) outcome" where
  "SetSampleValues s vals =
     (case s of
        None \<Rightarrow> Panicked NilDereference
      | Some smp \<Rightarrow>
          (let resized =
                 (if length (Values smp) \<ge> length vals then take (length vals) (Values smp)
                  else replicate (length vals) 0)
           in Returned (smp\<lparr>Values := assign_values 0 vals resized\<rparr>)))"

text \<open>
  Modelled from the spec: \<open>Sample.CopyMetadataFrom\<close> (the sample type's source file is
  not among the sources). A sample is a triple of timestamp, values and tags; the
  metadata are the timestamp and the tags. The receiver is a pointer.
\<close>

definition CopyMetadataFrom :: "real Sample option \<Rightarrow> real Sample option \<Rightarrow> (real Sample) outcome" where
  "CopyMetadataFrom s other =
     (case s of
        None \<Rightarrow> Panicked NilDereference
      | Some smp \<Rightarrow>
          (case other of
             None \<Rightarrow> Panicked NilDereference
           | Some src \<Rightarrow> Returned (smp\<lparr>Time := Time src, Tags := Tags src\<rparr>)))"

text \<open>
  \<open>PCAProjection.Sample\<close>. The named result \<open>result\<close> is a nil pointer until it is
  assigned, and the body never assigns it. \<open>PCAProjection.Vector\<close> multiplies by the
  component matrix with the matrix library; it is the parameter \<open>vector\<close>, which may
  panic on its own (a shape mismatch). Next to its outcome the function gives the calls
  it has made on \<open>result\<close>, in order, each with the pointer it passed; a panic ends the
  body, so a later call is not made.
\<close>

datatype result_call =
    Call_SetSampleValues "real Sample option" "real list"
  | Call_CopyMetadataFrom "real Sample option"

definition PCAProjection_Sample ::
  "(real list \<Rightarrow> (real list) outcome) \<Rightarrow> real Sample option
   \<Rightarrow> result_call list \<times> (real Sample option) outcome" where
  "PCAProjection_Sample vector sample =
     (let result = None in
      case SampleToVector sample of
        Panicked pn \<Rightarrow> ([], Panicked pn)
      | Returned vec \<Rightarrow>
          (case vector vec of
             Panicked pn \<Rightarrow> ([], Panicked pn)
           | Returned vals \<Rightarrow>
               (case SetSampleValues result vals of
                  Panicked pn \<Rightarrow> ([Call_SetSampleValues result vals], Panicked pn)
                | Returned r1 \<Rightarrow>
                    (case CopyMetadataFrom (Some r1) sample of
                       Panicked pn \<Rightarrow>
                         ([Call_SetSampleValues result vals, Call_CopyMetadataFrom (Some r1)],
                          Panicked pn)
                     | Returned r2 \<Rightarrow>
                         ([Call_SetSampleValues result vals, Call_CopyMetadataFrom (Some r1)],
                          Returned (Some r2))))))"

section \<open>Variance filter (package steps)\<close>

text \<open>
  Values are real numbers here; rounding of \<open>float64\<close> is outside the model. The
  accumulator \<open>onlinestats.Running\<close> is not among the sources: it is represented by
  the list of values pushed into it, and its \<open>Stddev()\<close> and \<open>Mean()\<close> are the
  parameters \<open>Stddev\<close> and \<open>Mean\<close> on that list.
\<close>
















section \<open>Example configurations\<close>

text \<open>
  Concrete headers, samples, steps and processors at which the properties below are
  evaluated.
\<close>

definition accept_all :: "'v Sample \<Rightarrow> Header \<Rightarrow> error option" where
  "accept_all s h = None"

definition drop_batch_nil_header :: "'v BatchProcessingStep" where
  "drop_batch_nil_header h smpls = (None, [], None)"

definition example_header :: Header where
  "example_header = \<lparr>Fields = [''cpu'', ''mem''], HasTags = True\<rparr>"

definition example_sample :: "real Sample" where
  "example_sample = \<lparr>Time = 1000000000, Tags = [(''host'', ''a'')], Values = [1/2, 1024]\<rparr>"

definition idle_processor :: "'v BatchProcessingStep list \<Rightarrow> 'v Sample list \<Rightarrow> 'v BatchProcessor" where
  "idle_processor sts smpls =
     \<lparr>checker_LastHeader = Some example_header, samples = smpls, shutdown = False,
      Steps = sts, FlushTimeout = 5, lastAutoFlushError = None, lastSample = Some 0,
      FlushTag = [], lastFlushTag = [], flushHeader = None, flushError = None,
      emitted = [], logged = []\<rparr>"

definition identity_step :: "'v BatchProcessingStep" where
  "identity_step h smpls = (Some h, smpls, None)"

definition drop_batch :: "'v BatchProcessingStep" where
  "drop_batch h smpls = (Some h, [], None)"




text \<open>
  An environment in which a port is valid when it is a decimal number up to 65535, no
  file exists yet, and no custom data source is registered.
\<close>

definition decimal_port :: "string \<Rightarrow> bool" where
  "decimal_port p =
     (p \<noteq> [] \<and> list_all (\<lambda>c. CHR ''0'' \<le> c \<and> c \<le> CHR ''9'') p
      \<and> foldl (\<lambda>n c. 10 * n + (of_char c - 48)) (0 :: int) p \<le> 65535)"

definition no_such_file :: "string \<Rightarrow> stat_result" where
  "no_such_file path = StatPathError (Some ''no such file or directory'')"

definition no_custom_sources ::
  "EndpointType \<Rightarrow> (string \<Rightarrow> MetricSource option \<times> error option) option" where
  "no_custom_sources typ = None"

definition plain_env :: environment where
  "plain_env =
     \<lparr>LookupPort = decimal_port, Stat = no_such_file, ConsoleBoxEndpoint = ''box'',
      CustomDataSources = no_custom_sources\<rparr>"

text \<open>A projection onto the first component, as an instance of the matrix product.\<close>

definition first_component :: "real list \<Rightarrow> (real list) outcome" where
  "first_component vec = Returned (take 1 vec)"

text \<open>
  A projection whose component matrix has three rows: the product with a vector of
  another length panics in the matrix library.
\<close>

definition three_row_projection :: "real list \<Rightarrow> (real list) outcome" where
  "three_row_projection vec =
     (if length vec = 3 then Returned (take 1 vec) else Panicked MatrixShape)"





text \<open>Three samples with a \<open>host\<close> tag, out of order, and a sorter on that tag.\<close>

definition host_sample :: "string \<Rightarrow> 64 word \<Rightarrow> 64 word Sample" where
  "host_sample host t = \<lparr>Time = t, Tags = [(''host'', host)], Values = []\<rparr>"

definition unsorted_batch :: "64 word Sample list" where
  "unsorted_batch = [host_sample ''b'' 1, host_sample ''a'' 7, host_sample ''a'' 3]"

definition sorted_batch :: "64 word Sample list" where
  "sorted_batch = [host_sample ''a'' 3, host_sample ''a'' 7, host_sample ''b'' 1]"

definition host_sorter :: SampleSorter where
  "host_sorter = \<lparr>sorter_Tags = [''host'']\<rparr>"

text \<open>A started sink with an open connection and an empty queue; every dial succeeds.\<close>

definition dial_ok :: "string \<Rightarrow> error + string" where
  "dial_ok endpoint = Inr endpoint"

definition open_sink :: "real TCPSink" where
  "open_sink =
     \<lparr>Endpoint = ''10.0.0.1:5555'', LastHeader = example_header,
      conn = Some \<lparr>conn_open = True, remote = ''10.0.0.1:5555'', samples_chan = Some []\<rparr>,
      stopped = False, dialed = [''10.0.0.1:5555''], closed_conns = []\<rparr>"

definition closed_sink :: "real TCPSink" where
  "closed_sink =
     \<lparr>Endpoint = ''10.0.0.1:5555'', LastHeader = example_header, conn = None,
      stopped = True, dialed = [''10.0.0.1:5555''],
      closed_conns = [\<lparr>conn_open = False, remote = ''10.0.0.1:5555'', samples_chan = None\<rparr>]\<rparr>"




section \<open>Verified properties\<close>

lemma executeSteps_loop_full:
  "executeSteps_loop i pre smpls hdr = (StepsDone s1 h1, lg) \<Longrightarrow> s1 \<noteq> [] \<Longrightarrow>
   executed_steps lg = [i..<i + length pre] \<and>
   executeSteps_loop i (pre @ rest) smpls hdr =
     (case executeSteps_loop (i + length pre) rest s1 h1 of (r, lg2) \<Rightarrow> (r, lg @ lg2))"
proof (induction pre arbitrary: i smpls hdr lg)
  case Nil
  then show ?case by (auto split: prod.splits)
next
  case (Cons step pre)
  from Cons.prems obtain h where h: "hdr = Some h"
    by (cases hdr) auto
  from Cons.prems h have ne: "smpls \<noteq> []"
    by (auto split: if_splits)
  obtain hd' smp' eo where st: "step h smpls = (hd', smp', eo)"
    by (cases "step h smpls") auto
  from Cons.prems h ne st have eo: "eo = None"
    by (cases eo) auto
  obtain r lg' where rec: "executeSteps_loop (Suc i) pre smp' hd' = (r, lg')"
    by (cases "executeSteps_loop (Suc i) pre smp' hd'") auto
  from Cons.prems h ne st eo rec have r: "r = StepsDone s1 h1" and lg: "lg = Executing i (length smpls) # lg'"
    by auto
  from Cons.IH[OF rec[unfolded r] Cons.prems(2)]
  have IH1: "executed_steps lg' = [Suc i..<Suc i + length pre]"
    and IH2: "executeSteps_loop (Suc i) (pre @ rest) smp' hd' =
     (case executeSteps_loop (Suc i + length pre) rest s1 h1 of (r, lg2) \<Rightarrow> (r, lg' @ lg2))"
    by auto
  have upt: "[i..<i + length (step # pre)] = i # [Suc i..<Suc i + length pre]"
    using upt_conv_Cons[of i "i + length (step # pre)"] by simp
  have one: "executed_steps lg = [i..<i + length (step # pre)]"
    unfolding upt lg using IH1 by simp
  have two: "executeSteps_loop i ((step # pre) @ rest) smpls hdr =
     (case executeSteps_loop (i + length (step # pre)) rest s1 h1 of (r, lg2) \<Rightarrow> (r, lg @ lg2))"
    using h ne st eo IH2 lg by (simp split: prod.splits)
  from one two show ?case by blast
qed

lemma executed_steps_append:
  "executed_steps (a @ b) = executed_steps a @ executed_steps b"
  by (induction a rule: executed_steps.induct) auto

text \<open>
  Claim C3, as amended. When a step of the chain returns an empty sample set together
  with a non-nil header and no error, the flush runs exactly the steps up to and
  including that one (none of the remaining steps), hands nothing downstream, empties
  the buffer and returns without error.
\<close>

theorem batch_steps_short_circuit:
  assumes steps: "Steps p = pre @ step # rest"
    and pre: "executeSteps pre (samples p) (Some h) = (StepsDone smpls1 (Some h1), lg1)"
    and ne: "smpls1 \<noteq> []"
    and empty: "step h1 smpls1 = (Some h2, [], None)"
  shows "\<exists>lg. executeFlush sink p (Some h) =
           Returned (None, p\<lparr>samples := [], logged := logged p @ lg\<rparr>)
         \<and> executed_steps lg = [0..<Suc (length pre)]"
proof -
  from pre ne have sne: "samples p \<noteq> []"
    by (cases pre) (auto simp: executeSteps_def split: if_splits)
  let ?tail = "if rest = [] then [] else [CannotExecuteRemaining (length rest)]"
  let ?lg = "lg1 @ Executing (length pre) (length smpls1) # ?tail"
  from executeSteps_loop_full[OF pre[unfolded executeSteps_def] ne, of "step # rest"]
  have ex: "executed_steps lg1 = [0..<length pre]"
    and app: "executeSteps_loop 0 (pre @ step # rest) (samples p) (Some h) =
      (case executeSteps_loop (length pre) (step # rest) smpls1 (Some h1) of (r, lg2) \<Rightarrow> (r, lg1 @ lg2))"
    by auto
  have tl: "executeSteps_loop (Suc (length pre)) rest [] (Some h2) = (StepsDone [] (Some h2), ?tail)"
    by (cases rest) auto
  have run: "executeSteps (Steps p) (samples p) (Some h) = (StepsDone [] (Some h2), ?lg)"
    using app ne empty tl by (simp add: executeSteps_def steps)
  have exl: "executed_steps ?lg = [0..<Suc (length pre)]"
    using ex by (simp add: executed_steps_append)
  have "executeFlush sink p (Some h) = Returned (None, p\<lparr>samples := [], logged := logged p @ ?lg\<rparr>)"
    using sne run by (simp add: executeFlush_def Let_def)
  with exl show ?thesis by blast
qed

text \<open>
  The amended claim C3 at a chain of three steps whose middle step drops the batch.
\<close>

theorem batch_steps_short_circuit_witness:
  "Steps (idle_processor [identity_step, drop_batch, identity_step] [example_sample])
     = [identity_step] @ drop_batch # [identity_step]
   \<and> executeSteps [identity_step]
        (samples (idle_processor [identity_step, drop_batch, identity_step] [example_sample]))
        (Some example_header) = (StepsDone [example_sample] (Some example_header), [Executing 0 1])
   \<and> [example_sample] \<noteq> []
   \<and> drop_batch example_header [example_sample] = (Some example_header, [], None)
   \<and> (\<exists>lg. executeFlush accept_all
              (idle_processor [identity_step, drop_batch, identity_step] [example_sample])
              (Some example_header)
            = Returned (None,
                (idle_processor [identity_step, drop_batch, identity_step] [example_sample])
                  \<lparr>samples := [],
                   logged := logged (idle_processor [identity_step, drop_batch, identity_step]
                                       [example_sample]) @ lg\<rparr>)
          \<and> executed_steps lg = [0..<Suc (length [identity_step :: real BatchProcessingStep])])"
proof -
  let ?P = "idle_processor [identity_step, drop_batch, identity_step] [example_sample]"
  have a: "Steps ?P = [identity_step] @ drop_batch # [identity_step]"
    by (simp add: idle_processor_def)
  have b: "executeSteps [identity_step] (samples ?P) (Some example_header)
        = (StepsDone [example_sample] (Some example_header), [Executing 0 1])"
    by (simp add: idle_processor_def executeSteps_def identity_step_def)
  have c: "[example_sample] \<noteq> []" by simp
  have d: "drop_batch example_header [example_sample] = (Some example_header, [], None)"
    by (simp add: drop_batch_def)
  from batch_steps_short_circuit[OF a b c d, of accept_all] a b c d
  show ?thesis by blast
qed

text \<open>
  Claim C3 as stated fails: a single step that returns an empty sample set with a nil
  header makes the flush return the nil-header error.
\<close>

theorem batch_steps_short_circuit_counterexample:
  "drop_batch_nil_header example_header [example_sample] = (None, [], None)
   \<and> executeFlush accept_all (idle_processor [drop_batch_nil_header] [example_sample])
        (Some example_header)
     = Returned (Some (NilHeaderReturned 0),
         (idle_processor [drop_batch_nil_header] [example_sample])
           \<lparr>samples := [], logged := [Executing 0 1]\<rparr>)"
  by (simp add: drop_batch_nil_header_def executeFlush_def executeSteps_def idle_processor_def
      Let_def)







lemma byte_part: "bit (ucast (ucast (drop_bit k v :: 64 word) :: 8 word) :: 64 word) n
   \<longleftrightarrow> n < 8 \<and> bit v (k + n)" 
  by (auto simp: bit_simps)

lemma Uint64_PutUint64: "Uint64 (PutUint64 v) = v"
proof (rule bit_word_eqI)
  fix n assume "n < LENGTH(64)"
  then have n: "n < 64" by simp
  have u0: "\<And>n. bit (ucast (ucast v :: 8 word) :: 64 word) n \<longleftrightarrow> n < 8 \<and> bit v n"
    by (auto simp: bit_simps)
  consider "n < 8" | "8 \<le> n" "n < 16" | "16 \<le> n" "n < 24" | "24 \<le> n" "n < 32"
    | "32 \<le> n" "n < 40" | "40 \<le> n" "n < 48" | "48 \<le> n" "n < 56" | "56 \<le> n" "n < 64"
    using n by linarith
  then show "bit (Uint64 (PutUint64 v)) n = bit v n"
    unfolding Uint64_def PutUint64_def
    by cases (auto simp add: bit_or_iff bit_push_bit_iff byte_part u0)
qed

lemma length_PutUint64: "length (PutUint64 v) = 8"
  by (simp add: PutUint64_def)

lemma length_concat_PutUint64: "length (concat (map PutUint64 vs)) = 8 * length vs"
  by (induction vs) (simp_all add: length_PutUint64)

lemma parse_values_PutUint64:
  "parse_values (length vs) (concat (map PutUint64 vs)) acc = Returned (acc @ vs)"
proof (induction vs arbitrary: acc)
  case Nil
  then show ?case by simp
next
  case (Cons v vs)
  have "take 8 (PutUint64 v @ concat (map PutUint64 vs)) = PutUint64 v"
    by (simp add: length_PutUint64)
  moreover have "drop 8 (PutUint64 v @ concat (map PutUint64 vs)) = concat (map PutUint64 vs)"
    by (simp add: length_PutUint64)
  ultimately show ?case
    using Cons.IH[of "acc @ [v]"]
    by (simp add: valBytes_def length_PutUint64 Uint64_PutUint64)
qed

lemma IndexByte_absent: "c \<notin> set b \<Longrightarrow> IndexByte b c = - 1"
  by (simp add: IndexByte_def)

lemma IndexByte_first: "c \<notin> set b \<Longrightarrow> IndexByte (b @ c # r) c = int (length b)"
proof -
  assume "c \<notin> set b"
  then have "takeWhile (\<lambda>x. x \<noteq> c) (b @ c # r) = b"
    by (induction b) auto
  then show ?thesis by (simp add: IndexByte_def)
qed

lemma ReadFull_enough:
  "n \<le> length input \<Longrightarrow> ReadFull input n = (take n input, None, drop n input)"
  by (simp add: ReadFull_def)

lemma Uint64_take: "Uint64 (take 8 (PutUint64 v @ r)) = v"
  by (simp add: length_PutUint64 Uint64_PutUint64)

lemma read_back:
  assumes len: "length (Values s) = length (Fields h)"
    and sep: "HasTags h \<Longrightarrow> binary_separator \<notin> set (tagString (Tags s))"
  shows "ReadSampleData h (WriteSample tagString s h @ rest)
           = ((WriteSample tagString s h, None), rest)"
proof (cases "HasTags h")
  case False
  then have "length (WriteSample tagString s h) = timeBytes + valBytes * length (Fields h)"
    by (simp add: WriteSample_def length_PutUint64 length_concat_PutUint64 len
        timeBytes_def valBytes_def)
  then show ?thesis
    using False by (simp add: ReadSampleData_def Let_def ReadFull_enough)
next
  case True
  define n where "n = length (Fields h)"
  define G where "G = tagString (Tags s)"
  define V where "V = concat (map PutUint64 (Values s))"
  define T where "T = PutUint64 (Time s)"
  define X where "X = WriteSample tagString s h @ rest"
  have lT: "length T = 8" by (simp add: T_def length_PutUint64)
  have lV: "length V = 8 * n" by (simp add: V_def length_concat_PutUint64 len n_def)
  have W: "WriteSample tagString s h = T @ G @ binary_separator # V"
    using True by (simp add: WriteSample_def T_def G_def V_def)
  have lW: "length (WriteSample tagString s h) = 8 + length G + 1 + 8 * n"
    by (simp add: W lT lV)
  have nosep: "binary_separator \<notin> set G" using sep[OF True] by (simp add: G_def)
  have Xeq: "X = T @ G @ binary_separator # V @ rest" by (simp add: X_def W)
  have min: "8 + 8 * n \<le> length X" by (simp add: X_def lW)
  have first: "ReadFull X (8 + 8 * n) = (take (8 + 8 * n) X, None, drop (8 + 8 * n) X)"
    by (rule ReadFull_enough[OF min])
  have d8: "drop 8 (take (8 + 8 * n) X) = take (8 * n) (G @ binary_separator # V @ rest)"
    by (simp add: Xeq lT drop_take)
  have whole: "take (length (WriteSample tagString s h)) X = WriteSample tagString s h"
    and after: "drop (length (WriteSample tagString s h)) X = rest"
    by (simp_all add: X_def)
  show ?thesis
  proof (cases "length G < 8 * n")
    case short: True
    have "take (8 * n) (G @ binary_separator # V @ rest)
            = G @ binary_separator # take (8 * n - length G - 1) (V @ rest)"
      using short by (simp add: take_Cons')
    then have idx: "IndexByte (drop 8 (take (8 + 8 * n) X)) binary_separator = int (length G)"
      using nosep by (simp add: d8 IndexByte_first)
    have enough: "length G + 1 \<le> length (drop (8 + 8 * n) X)"
      using short by (simp add: X_def lW)
    have sum: "8 + 8 * n + (length G + 1) = length (WriteSample tagString s h)"
      by (simp add: lW)
    have sum': "length G + 1 + (8 + 8 * n) = length (WriteSample tagString s h)"
      by (simp add: lW)
    have "take (8 + 8 * n) X @ take (length G + 1) (drop (8 + 8 * n) X)
            = take (8 + 8 * n + (length G + 1)) X"
      by (rule take_add[symmetric])
    then have res: "take (8 + 8 * n) X @ take (length G + 1) (drop (8 + 8 * n) X)
                 = WriteSample tagString s h"
      by (simp only: sum whole)
    have "drop (length G + 1) (drop (8 + 8 * n) X) = drop (length G + 1 + (8 + 8 * n)) X"
      by (rule drop_drop)
    then have rst: "drop (length G + 1) (drop (8 + 8 * n) X) = rest"
      by (simp only: sum' after)
    show ?thesis
      unfolding X_def[symmetric]
      using True idx first ReadFull_enough[OF enough] res rst
      by (simp add: ReadSampleData_def Let_def timeBytes_def valBytes_def n_def unexpectedEOF_def)
  next
    case long: False
    have "take (8 * n) (G @ binary_separator # V @ rest) = take (8 * n) G"
      using long by simp
    moreover have "binary_separator \<notin> set (take (8 * n) G)"
      using nosep by (meson in_set_takeD)
    ultimately have idx: "IndexByte (drop 8 (take (8 + 8 * n) X)) binary_separator = - 1"
      by (simp add: d8 IndexByte_absent)
    have in1: "drop (8 + 8 * n) X = drop (8 * n) G @ binary_separator # V @ rest"
      using long by (simp add: Xeq lT)
    have nosep': "binary_separator \<notin> set (drop (8 * n) G)"
      using nosep by (meson in_set_dropD)
    have idx2: "IndexByte (drop (8 + 8 * n) X) binary_separator = int (length G - 8 * n)"
      unfolding in1 using IndexByte_first[OF nosep'] by simp
    define k where "k = length G - 8 * n + 1"
    have rb: "ReadBytes (drop (8 + 8 * n) X) binary_separator
                = (take k (drop (8 + 8 * n) X), None, drop k (drop (8 + 8 * n) X))"
      by (simp add: ReadBytes_def idx2 k_def)
    have enough: "8 * n \<le> length (drop k (drop (8 + 8 * n) X))"
      using long by (simp add: X_def lW k_def)
    have sum: "8 + 8 * n + k + 8 * n = length (WriteSample tagString s h)"
      using long by (simp add: lW k_def)
    have sum': "8 * n + (k + (8 + 8 * n)) = length (WriteSample tagString s h)"
      using long by (simp add: lW k_def)
    have "take (8 + 8 * n) X @ take k (drop (8 + 8 * n) X)
                 @ take (8 * n) (drop k (drop (8 + 8 * n) X))
          = take (8 + 8 * n + k) X @ take (8 * n) (drop (8 + 8 * n + k) X)"
      by (simp only: take_add[of "8 + 8 * n" k X] drop_drop add.commute[of k "8 + 8 * n"]
          append_assoc)
    also have "\<dots> = take (8 + 8 * n + k + 8 * n) X"
      by (rule take_add[symmetric])
    finally have res: "take (8 + 8 * n) X @ take k (drop (8 + 8 * n) X)
                 @ take (8 * n) (drop k (drop (8 + 8 * n) X)) = WriteSample tagString s h"
      by (simp only: sum whole)
    have "drop (8 * n) (drop k (drop (8 + 8 * n) X)) = drop (8 * n + (k + (8 + 8 * n))) X"
      by (simp only: drop_drop)
    then have rst: "drop (8 * n) (drop k (drop (8 + 8 * n) X)) = rest"
      by (simp only: sum' after)
    show ?thesis
      unfolding X_def[symmetric]
      using True idx first rb ReadFull_enough[OF enough] res rst
      by (simp add: ReadSampleData_def Let_def timeBytes_def valBytes_def n_def)
  qed
qed

lemma parse_values_all:
  "parse_values (length vs) (concat (map PutUint64 vs)) [] = Returned vs"
  using parse_values_PutUint64[of vs "[]"] by simp

lemma parse_back:
  assumes len: "length (Values s) = length (Fields h)"
    and sep: "HasTags h \<Longrightarrow> binary_separator \<notin> set (tagString (Tags s))"
  shows "ParseSample parseTagString h (WriteSample tagString s h)
           = (if HasTags h then
                (case parseTagString (tagString (Tags s)) of
                   Inl err \<Rightarrow> Returned (\<lparr>Time = Time s, Tags = [], Values = []\<rparr>, Some err)
                 | Inr tgs \<Rightarrow> Returned (s\<lparr>Tags := tgs\<rparr>, None))
              else Returned (s\<lparr>Tags := []\<rparr>, None))"
proof (cases "HasTags h")
  case False
  have W: "WriteSample tagString s h = PutUint64 (Time s) @ concat (map PutUint64 (Values s))"
    using False by (simp add: WriteSample_def)
  have lW: "length (WriteSample tagString s h) = 8 + length (Fields h) * 8"
    by (simp add: W length_PutUint64 length_concat_PutUint64 len)
  have tm: "Uint64 (take 8 (WriteSample tagString s h)) = Time s"
    unfolding W by (rule Uint64_take)
  have dr: "drop 8 (WriteSample tagString s h) = concat (map PutUint64 (Values s))"
    by (simp add: W length_PutUint64)
  show ?thesis
    using False lW tm dr parse_values_all[of "Values s"]
    by (simp add: ParseSample_def Let_def timeBytes_def valBytes_def len[symmetric])
next
  case True
  define G where "G = tagString (Tags s)"
  define V where "V = concat (map PutUint64 (Values s))"
  have W: "WriteSample tagString s h = PutUint64 (Time s) @ (G @ binary_separator # V)"
    using True by (simp add: WriteSample_def G_def V_def)
  have nosep: "binary_separator \<notin> set G" using sep[OF True] by (simp add: G_def)
  have lV: "length V = length (Fields h) * 8"
    by (simp add: V_def length_concat_PutUint64 len)
  have lW: "length (WriteSample tagString s h) = 8 + (length G + 1 + length (Fields h) * 8)"
    by (simp add: W length_PutUint64 lV)
  have tm: "Uint64 (take 8 (WriteSample tagString s h)) = Time s"
    unfolding W by (rule Uint64_take)
  have dr: "drop 8 (WriteSample tagString s h) = G @ binary_separator # V"
    by (simp add: W length_PutUint64)
  have idx: "IndexByte (G @ binary_separator # V) binary_separator = int (length G)"
    by (rule IndexByte_first[OF nosep])
  have pv: "parse_values (length (Fields h)) V [] = Returned (Values s)"
    using parse_values_all[of "Values s"] by (simp add: V_def len)
  show ?thesis
    using True lW tm dr idx pv lV
    by (simp add: ParseSample_def Let_def timeBytes_def valBytes_def G_def[symmetric]
        split: sum.splits)
qed

text \<open>
  The tag functions modelled from the spec: on tags whose keys hold no \<open>=\<close> and whose
  keys and values hold no space, parsing the tag string gives the tags back in ascending
  key order; and the tag string holds a line feed only if a key or a value does.
\<close>

lemma split_on_join_with:
  "xs \<noteq> [] \<Longrightarrow> \<forall>x\<in>set xs. c \<notin> set x \<Longrightarrow> split_on c (join_with c xs) = xs"
proof (induction c xs rule: join_with.induct)
  case (1 c)
  then show ?case by simp
next
  case (2 c x)
  then show ?case by (induction x) (auto split: list.splits)
next
  case (3 c x y ys)
  have "split_on c (x @ c # join_with c (y # ys)) = x # split_on c (join_with c (y # ys))"
    using 3(3) by (induction x) (auto split: list.splits)
  then show ?case using 3 by simp
qed

lemma set_join_with: "set (join_with c xs) \<subseteq> insert c (\<Union>x\<in>set xs. set x)"
  by (induction c xs rule: join_with.induct) auto

lemma cut_at_equals:
  "CHR ''='' \<notin> set k \<Longrightarrow>
   takeWhile (\<lambda>x. x \<noteq> CHR ''='') (k @ CHR ''='' # v) = k
   \<and> dropWhile (\<lambda>x. x \<noteq> CHR ''='') (k @ CHR ''='' # v) = CHR ''='' # v"
  by (induction k) auto

lemma parse_tag_pairs_join:
  "\<forall>(k, v)\<in>set tgs. CHR ''='' \<notin> set k \<Longrightarrow>
   parse_tag_pairs (map (\<lambda>(k, v). k @ CHR ''='' # v) tgs) = Inr tgs"
proof (induction tgs)
  case Nil
  then show ?case by simp
next
  case (Cons kv tgs)
  obtain k v where kv: "kv = (k, v)" by (cases kv)
  have "CHR ''='' \<notin> set k" using Cons.prems kv by simp
  from cut_at_equals[OF this, of v] Cons kv show ?case by simp
qed

lemma byte_of_char: "char_of (unat (of_char a :: byte)) = a"
proof -
  have "(of_char a :: byte) = of_nat (of_char a)" by (simp add: of_nat_of_char)
  then have "unat (of_char a :: byte) = (of_char a :: nat) mod 256" by (simp add: unat_of_nat)
  then show ?thesis by simp
qed

lemma string_of_bytes_of_string: "string_of_bytes (bytes_of_string str) = str"
  by (induction str) (simp_all add: string_of_bytes_def bytes_of_string_def byte_of_char)

lemma tag_string_roundtrip:
  assumes "\<forall>(k, v)\<in>set tgs. CHR ''='' \<notin> set k \<and> CHR '' '' \<notin> set (k @ v)"
  shows "parse_tag_bytes (tag_bytes tgs) = Inr (sort_key fst tgs)"
proof -
  define ordered where "ordered = sort_key fst tgs"
  define ps where "ps = map (\<lambda>(k, v). k @ CHR ''='' # v) ordered"
  have same: "set ordered = set tgs" by (simp add: ordered_def)
  have str: "TagString tgs = join_with CHR '' '' ps"
    by (simp add: TagString_def ps_def ordered_def)
  have "ParseTagString (TagString tgs) = Inr ordered"
  proof (cases ordered)
    case Nil
    then show ?thesis by (simp add: str ps_def ParseTagString_def)
  next
    case (Cons kv rest)
    have ne: "ps \<noteq> []" using Cons by (simp add: ps_def)
    have sp: "\<forall>p\<in>set ps. CHR '' '' \<notin> set p"
      using assms same by (auto simp: ps_def)
    have j: "join_with CHR '' '' ps \<noteq> []"
      using Cons by (cases kv; cases rest) (auto simp: ps_def)
    have eq: "\<forall>(k, v)\<in>set ordered. CHR ''='' \<notin> set k"
      using assms same by auto
    show ?thesis
      using split_on_join_with[OF ne sp] parse_tag_pairs_join[OF eq] j
      by (simp add: ParseTagString_def str ps_def)
  qed
  then show ?thesis
    by (simp add: parse_tag_bytes_def tag_bytes_def string_of_bytes_of_string ordered_def)
qed

lemma tag_bytes_separator:
  assumes "\<forall>(k, v)\<in>set tgs. CHR 0x0A \<notin> set (k @ v)"
  shows "binary_separator \<notin> set (tag_bytes tgs)"
proof
  assume "binary_separator \<in> set (tag_bytes tgs)"
  then obtain c where c: "c \<in> set (TagString tgs)" and b: "(of_char c :: byte) = 10"
    by (auto simp: tag_bytes_def bytes_of_string_def binary_separator_def)
  have "char_of (10 :: nat) = CHR 0x0A" by code_simp
  then have "char_of (unat (of_char c :: byte)) = CHR 0x0A"
    unfolding b by simp
  then have lf: "c = CHR 0x0A" by (simp add: byte_of_char)
  have "set (TagString tgs)
          \<subseteq> insert CHR '' '' (\<Union>p\<in>set (map (\<lambda>(k, v). k @ CHR ''='' # v) (sort_key fst tgs)). set p)"
    unfolding TagString_def by (rule set_join_with)
  with c lf obtain k v where "(k, v) \<in> set tgs" and "CHR 0x0A \<in> set (k @ CHR ''='' # v)"
    by auto
  with assms show False by auto
qed

text \<open>
  So for tags whose keys and values hold neither a space, nor \<open>=\<close>, nor a line feed,
  the binary frame of a sample is read back as the sample, its tags listed in ascending
  key order.
\<close>

lemma binary_roundtrip_of_tags:
  assumes len: "length (Values s) = length (Fields h)" and tg: "HasTags h"
    and chars: "\<forall>(k, v)\<in>set (Tags s).
                  CHR '' '' \<notin> set (k @ v) \<and> CHR ''='' \<notin> set (k @ v) \<and> CHR 0x0A \<notin> set (k @ v)"
  shows "ReadSampleData h (WriteSample tag_bytes s h @ rest)
           = ((WriteSample tag_bytes s h, None), rest)"
    and "ParseSample parse_tag_bytes h (WriteSample tag_bytes s h)
           = Returned (s\<lparr>Tags := sort_key fst (Tags s)\<rparr>, None)"
proof -
  have sep: "binary_separator \<notin> set (tag_bytes (Tags s))"
    using chars by (intro tag_bytes_separator) auto
  have inv: "parse_tag_bytes (tag_bytes (Tags s)) = Inr (sort_key fst (Tags s))"
    using chars by (intro tag_string_roundtrip) auto
  show "ReadSampleData h (WriteSample tag_bytes s h @ rest)
           = ((WriteSample tag_bytes s h, None), rest)"
    using len sep by (rule read_back[where tagString = tag_bytes])
  show "ParseSample parse_tag_bytes h (WriteSample tag_bytes s h)
           = Returned (s\<lparr>Tags := sort_key fst (Tags s)\<rparr>, None)"
    using parse_back[where tagString = tag_bytes and parseTagString = parse_tag_bytes,
        OF len sep] tg inv
    by simp
qed




lemmas endpoint_names = UndefinedEndpoint_def TcpEndpoint_def TcpListenEndpoint_def
  FileEndpoint_def StdEndpoint_def UndefinedFormat_def TextFormat_def CsvFormat_def
  BinaryFormat_def stdTransportTarget_def

lemma format_nonempty: "allFormatsMap f \<Longrightarrow> f \<noteq> []"
  by (auto simp: allFormatsMap_def endpoint_names)

lemma transport_not_format: "is_transport t \<Longrightarrow> \<not> allFormatsMap t"
  by (auto simp: allFormatsMap_def is_transport_def endpoint_names)

lemma transport_nonempty: "is_transport t \<Longrightarrow> t \<noteq> []"
  by (auto simp: is_transport_def endpoint_names)

lemma parse_parts_step:
  "(\<exists>e. parse_parts ep t (part # parts) res = (res, Some e))
   \<or> (\<exists>r. parse_parts ep t (part # parts) res = parse_parts ep t parts r
          \<and> Format r = (if allFormatsMap part then part else Format res)
          \<and> Type r = (if allFormatsMap part then Type res else part)
          \<and> (allFormatsMap part \<longrightarrow> Format res = [])
          \<and> (\<not> allFormatsMap part \<longrightarrow> Type res = [])
          \<and> (part = StdEndpoint \<longrightarrow> t = stdTransportTarget))"
proof (cases "allFormatsMap part")
  case True
  then have nstd: "part \<noteq> StdEndpoint"
    by (auto simp: allFormatsMap_def endpoint_names)
  show ?thesis
  proof (cases "Format res = []")
    case e: True
    have "parse_parts ep t (part # parts) res = parse_parts ep t parts (res\<lparr>Format := part\<rparr>)"
      using True e by simp
    then show ?thesis
      using True e nstd by (intro disjI2 exI[of _ "res\<lparr>Format := part\<rparr>"]) simp
  next
    case False
    then have "parse_parts ep t (part # parts) res = (res, Some (MultipleFormats ep))"
      using True by simp
    then show ?thesis by blast
  qed
next
  case False
  show ?thesis
  proof (cases "Type res = []")
    case ne: False
    then have "parse_parts ep t (part # parts) res = (res, Some (MultipleTransports ep))"
      using False by (simp add: UndefinedEndpoint_def)
    then show ?thesis by blast
  next
    case e: True
    show ?thesis
    proof (cases "part = StdEndpoint \<and> t \<noteq> stdTransportTarget")
      case True
      then have "parse_parts ep t (part # parts) res
                   = (res, Some (StdTransportTarget part stdTransportTarget))"
        using False e by (simp add: endpoint_names)
      then show ?thesis by blast
    next
      case ok: False
      define r where "r = (if is_transport part then res\<lparr>Type := part\<rparr>
                           else res\<lparr>IsCustomType := True, Type := part\<rparr>)"
      have "parse_parts ep t (part # parts) res = parse_parts ep t parts r"
        using False e ok by (simp add: r_def is_transport_def UndefinedEndpoint_def)
      moreover have "Format r = Format res" and "Type r = part"
        by (simp_all add: r_def)
      ultimately show ?thesis
        using False e ok by (intro disjI2 exI[of _ r]) simp
    qed
  qed
qed

lemma parse_parts_second_format:
  "Format res \<noteq> [] \<Longrightarrow> 1 \<le> length (filter allFormatsMap parts) \<Longrightarrow>
   snd (parse_parts endpoint target parts res) \<noteq> None"
proof (induction parts arbitrary: res)
  case Nil
  then show ?case by simp
next
  case (Cons part parts)
  from parse_parts_step[of endpoint target part parts res]
  show ?case
  proof (elim disjE exE conjE)
    fix e assume "parse_parts endpoint target (part # parts) res = (res, Some e)"
    then show ?thesis by simp
  next
    fix r assume r: "parse_parts endpoint target (part # parts) res = parse_parts endpoint target parts r"
      "Format r = (if allFormatsMap part then part else Format res)"
      "allFormatsMap part \<longrightarrow> Format res = []"
    with Cons.prems have nf: "\<not> allFormatsMap part" by auto
    with Cons.prems have cnt: "1 \<le> length (filter allFormatsMap parts)" by simp
    from r nf Cons.prems have "Format r \<noteq> []" by simp
    from Cons.IH[OF this cnt] r(1) show ?thesis by simp
  qed
qed

lemma parse_parts_two_formats:
  "2 \<le> length (filter allFormatsMap parts) \<Longrightarrow>
   snd (parse_parts endpoint target parts res) \<noteq> None"
proof (induction parts arbitrary: res)
  case Nil
  then show ?case by simp
next
  case (Cons part parts)
  from parse_parts_step[of endpoint target part parts res]
  show ?case
  proof (elim disjE exE conjE)
    fix e assume "parse_parts endpoint target (part # parts) res = (res, Some e)"
    then show ?thesis by simp
  next
    fix r assume r: "parse_parts endpoint target (part # parts) res = parse_parts endpoint target parts r"
      "Format r = (if allFormatsMap part then part else Format res)"
    show ?thesis
    proof (cases "allFormatsMap part")
      case True
      with Cons.prems have cnt: "1 \<le> length (filter allFormatsMap parts)" by simp
      from True r have "Format r \<noteq> []" by (simp add: format_nonempty)
      from parse_parts_second_format[OF this cnt] r(1) show ?thesis by simp
    next
      case False
      with Cons.prems have cnt: "2 \<le> length (filter allFormatsMap parts)" by simp
      from Cons.IH[OF cnt] r(1) show ?thesis by simp
    qed
  qed
qed

lemma transport_names: "is_transport t \<Longrightarrow> names_transport t"
  by (simp add: names_transport_def transport_not_format transport_nonempty
      UndefinedEndpoint_def)

lemma parse_parts_second_transport:
  "Type res \<noteq> [] \<Longrightarrow> 1 \<le> length (filter names_transport parts) \<Longrightarrow>
   snd (parse_parts endpoint target parts res) \<noteq> None"
proof (induction parts arbitrary: res)
  case Nil
  then show ?case by simp
next
  case (Cons part parts)
  from parse_parts_step[of endpoint target part parts res]
  show ?case
  proof (elim disjE exE conjE)
    fix e assume "parse_parts endpoint target (part # parts) res = (res, Some e)"
    then show ?thesis by simp
  next
    fix r assume r: "parse_parts endpoint target (part # parts) res = parse_parts endpoint target parts r"
      "Type r = (if allFormatsMap part then Type res else part)"
      "\<not> allFormatsMap part \<longrightarrow> Type res = []"
    with Cons.prems have f: "allFormatsMap part" by auto
    then have "\<not> names_transport part" by (simp add: names_transport_def)
    with Cons.prems have cnt: "1 \<le> length (filter names_transport parts)" by simp
    from r f Cons.prems have "Type r \<noteq> []" by simp
    from Cons.IH[OF this cnt] r(1) show ?thesis by simp
  qed
qed

lemma parse_parts_two_transports:
  "2 \<le> length (filter names_transport parts) \<Longrightarrow>
   snd (parse_parts endpoint target parts res) \<noteq> None"
proof (induction parts arbitrary: res)
  case Nil
  then show ?case by simp
next
  case (Cons part parts)
  from parse_parts_step[of endpoint target part parts res]
  show ?case
  proof (elim disjE exE conjE)
    fix e assume "parse_parts endpoint target (part # parts) res = (res, Some e)"
    then show ?thesis by simp
  next
    fix r assume r: "parse_parts endpoint target (part # parts) res = parse_parts endpoint target parts r"
      "Type r = (if allFormatsMap part then Type res else part)"
    show ?thesis
    proof (cases "names_transport part")
      case True
      with Cons.prems have cnt: "1 \<le> length (filter names_transport parts)" by simp
      from True r have "Type r \<noteq> []"
        by (simp add: names_transport_def UndefinedEndpoint_def)
      from parse_parts_second_transport[OF this cnt] r(1) show ?thesis by simp
    next
      case False
      with Cons.prems have cnt: "2 \<le> length (filter names_transport parts)" by simp
      from Cons.IH[OF cnt] r(1) show ?thesis by simp
    qed
  qed
qed

lemma parse_parts_std_target:
  "StdEndpoint \<in> set parts \<Longrightarrow> target \<noteq> stdTransportTarget \<Longrightarrow>
   snd (parse_parts endpoint target parts res) \<noteq> None"
proof (induction parts arbitrary: res)
  case Nil
  then show ?case by simp
next
  case (Cons part parts)
  from parse_parts_step[of endpoint target part parts res]
  show ?case
  proof (elim disjE exE conjE)
    fix e assume "parse_parts endpoint target (part # parts) res = (res, Some e)"
    then show ?thesis by simp
  next
    fix r assume r: "parse_parts endpoint target (part # parts) res = parse_parts endpoint target parts r"
      "part = StdEndpoint \<longrightarrow> target = stdTransportTarget"
    with Cons.prems have "StdEndpoint \<in> set parts" by auto
    from Cons.IH[OF this Cons.prems(2)] r(1) show ?thesis by simp
  qed
qed

lemma url_error:
  assumes "SplitN2 endpoint ''://'' = [ps, target]"
    and "snd (parse_parts endpoint target (split_on CHR ''+'' ps)
               (empty_description\<lparr>Target := target\<rparr>)) \<noteq> None"
  shows "snd (ParseUrlEndpointDescription env endpoint) \<noteq> None"
proof (cases "ps = [] \<or> target = []")
  case True
  then show ?thesis
    using assms(1) by (auto simp: ParseUrlEndpointDescription_def Let_def)
next
  case False
  obtain res e where pp: "parse_parts endpoint target (split_on CHR ''+'' ps)
               (empty_description\<lparr>Target := target\<rparr>) = (res, Some e)"
    using assms(2) by (metis not_None_eq prod.collapse)
  show ?thesis
    using False assms(1) pp by (simp add: ParseUrlEndpointDescription_def Let_def)
qed

lemma SplitN2_format_transport:
  assumes "allFormatsMap f" and "is_transport t"
  shows "SplitN2 (f @ ''+'' @ t @ ''://'' @ tgt) ''://'' = [f @ ''+'' @ t, tgt]"
    and "SplitN2 (t @ ''+'' @ f @ ''://'' @ tgt) ''://'' = [t @ ''+'' @ f, tgt]"
  using assms
  by (auto simp: allFormatsMap_def is_transport_def endpoint_names SplitN2_def)

lemma split_on_format_transport:
  assumes "allFormatsMap f" and "is_transport t"
  shows "split_on CHR ''+'' (f @ ''+'' @ t) = [f, t]"
    and "split_on CHR ''+'' (t @ ''+'' @ f) = [t, f]"
  using assms
  by (auto simp: allFormatsMap_def is_transport_def endpoint_names)

lemma parse_parts_format_transport:
  assumes f: "allFormatsMap f" and t: "is_transport t"
    and std: "t = StdEndpoint \<longrightarrow> tgt = ''-''"
  shows "parse_parts ep tgt [f, t] (empty_description\<lparr>Target := tgt\<rparr>)
           = (\<lparr>Format = f, Type = t, IsCustomType = False, Target = tgt\<rparr>, None)"
    and "parse_parts ep tgt [t, f] (empty_description\<lparr>Target := tgt\<rparr>)
           = (\<lparr>Format = f, Type = t, IsCustomType = False, Target = tgt\<rparr>, None)"
proof -
  have nf: "\<not> allFormatsMap t" using t by (rule transport_not_format)
  have tne: "t \<noteq> []" using t by (rule transport_nonempty)
  have fne: "f \<noteq> []" using f by (rule format_nonempty)
  show "parse_parts ep tgt [f, t] (empty_description\<lparr>Target := tgt\<rparr>)
           = (\<lparr>Format = f, Type = t, IsCustomType = False, Target = tgt\<rparr>, None)"
    using f nf t std
    by (auto simp: empty_description_def is_transport_def endpoint_names)
  show "parse_parts ep tgt [t, f] (empty_description\<lparr>Target := tgt\<rparr>)
           = (\<lparr>Format = f, Type = t, IsCustomType = False, Target = tgt\<rparr>, None)"
    using f nf t std
    by (auto simp: empty_description_def is_transport_def endpoint_names)
qed

lemma url_from_parts:
  assumes "SplitN2 endpoint ''://'' = [ps, tgt]" and "ps \<noteq> []" and "tgt \<noteq> []"
    and "split_on CHR ''+'' ps = parts"
    and "parse_parts endpoint tgt parts (empty_description\<lparr>Target := tgt\<rparr>) = (res, None)"
    and "Type res \<noteq> []" and "\<not> IsCustomType res"
  shows "ParseUrlEndpointDescription env endpoint = (res, None)"
  using assms by (simp add: ParseUrlEndpointDescription_def Let_def UndefinedEndpoint_def)

lemma url_format_transport:
  assumes f: "allFormatsMap f" and t: "is_transport t" and tgt: "tgt \<noteq> []"
    and std: "t = StdEndpoint \<longrightarrow> tgt = ''-''"
  shows "ParseUrlEndpointDescription env (f @ ''+'' @ t @ ''://'' @ tgt)
           = (\<lparr>Format = f, Type = t, IsCustomType = False, Target = tgt\<rparr>, None)"
    and "ParseUrlEndpointDescription env (t @ ''+'' @ f @ ''://'' @ tgt)
           = (\<lparr>Format = f, Type = t, IsCustomType = False, Target = tgt\<rparr>, None)"
proof -
  have tne: "t \<noteq> []" using t by (rule transport_nonempty)
  show "ParseUrlEndpointDescription env (f @ ''+'' @ t @ ''://'' @ tgt)
           = (\<lparr>Format = f, Type = t, IsCustomType = False, Target = tgt\<rparr>, None)"
  proof (rule url_from_parts)
    show "SplitN2 (f @ ''+'' @ t @ ''://'' @ tgt) ''://'' = [f @ ''+'' @ t, tgt]"
      by (rule SplitN2_format_transport(1)[OF f t])
    show "split_on CHR ''+'' (f @ ''+'' @ t) = [f, t]"
      by (rule split_on_format_transport(1)[OF f t])
    show "parse_parts (f @ ''+'' @ t @ ''://'' @ tgt) tgt [f, t]
            (empty_description\<lparr>Target := tgt\<rparr>)
          = (\<lparr>Format = f, Type = t, IsCustomType = False, Target = tgt\<rparr>, None)"
      by (rule parse_parts_format_transport(1)[OF f t std])
  qed (use tgt tne in simp_all)
  show "ParseUrlEndpointDescription env (t @ ''+'' @ f @ ''://'' @ tgt)
           = (\<lparr>Format = f, Type = t, IsCustomType = False, Target = tgt\<rparr>, None)"
  proof (rule url_from_parts)
    show "SplitN2 (t @ ''+'' @ f @ ''://'' @ tgt) ''://'' = [t @ ''+'' @ f, tgt]"
      by (rule SplitN2_format_transport(2)[OF f t])
    show "split_on CHR ''+'' (t @ ''+'' @ f) = [t, f]"
      by (rule split_on_format_transport(2)[OF f t])
    show "parse_parts (t @ ''+'' @ f @ ''://'' @ tgt) tgt [t, f]
            (empty_description\<lparr>Target := tgt\<rparr>)
          = (\<lparr>Format = f, Type = t, IsCustomType = False, Target = tgt\<rparr>, None)"
      by (rule parse_parts_format_transport(2)[OF f t std])
  qed (use tgt tne in simp_all)
qed

lemma parts_format_transport:
  assumes "filter allFormatsMap parts = [f]"
    and "filter (\<lambda>part. \<not> allFormatsMap part) parts = [t]"
  shows "allFormatsMap f \<and> (parts = [f, t] \<or> parts = [t, f])"
proof -
  have "length (filter allFormatsMap parts)
          + length (filter (\<lambda>part. \<not> allFormatsMap part) parts) = length parts"
    by (rule sum_length_filter_compl)
  with assms have "length parts = 2" by simp
  then obtain a b where ab: "parts = [a, b]"
    by (metis (no_types, opaque_lifting) One_nat_def Suc_1 length_0_conv length_Suc_conv)
  have "f \<in> set (filter allFormatsMap parts)"
    using assms(1) by simp
  then have f: "allFormatsMap f" by simp
  show ?thesis
    using assms f unfolding ab by (auto split: if_splits)
qed

lemma url_parts_format_transport:
  assumes sp: "SplitN2 endpoint ''://'' = [ps, tgt]" and tgt: "tgt \<noteq> []"
    and fs: "filter allFormatsMap (split_on CHR ''+'' ps) = [f]"
    and ts: "filter (\<lambda>part. \<not> allFormatsMap part) (split_on CHR ''+'' ps) = [t]"
    and t: "is_transport t" and std: "t = StdEndpoint \<longrightarrow> tgt = ''-''"
  shows "ParseUrlEndpointDescription env endpoint
           = (\<lparr>Format = f, Type = t, IsCustomType = False, Target = tgt\<rparr>, None)"
proof -
  have ps: "ps \<noteq> []"
    using fs by (auto simp: allFormatsMap_def endpoint_names)
  have tne: "t \<noteq> []" using t by (rule transport_nonempty)
  from parts_format_transport[OF fs ts]
  have f: "allFormatsMap f"
    and cases: "split_on CHR ''+'' ps = [f, t] \<or> split_on CHR ''+'' ps = [t, f]"
    by simp_all
  from cases show ?thesis
  proof
    assume parts: "split_on CHR ''+'' ps = [f, t]"
    show ?thesis
    proof (rule url_from_parts[OF sp ps tgt parts])
      show "parse_parts endpoint tgt [f, t] (empty_description\<lparr>Target := tgt\<rparr>)
            = (\<lparr>Format = f, Type = t, IsCustomType = False, Target = tgt\<rparr>, None)"
        by (rule parse_parts_format_transport(1)[OF f t std])
    qed (use tne in simp_all)
  next
    assume parts: "split_on CHR ''+'' ps = [t, f]"
    show ?thesis
    proof (rule url_from_parts[OF sp ps tgt parts])
      show "parse_parts endpoint tgt [t, f] (empty_description\<lparr>Target := tgt\<rparr>)
            = (\<lparr>Format = f, Type = t, IsCustomType = False, Target = tgt\<rparr>, None)"
        by (rule parse_parts_format_transport(2)[OF f t std])
    qed (use tne in simp_all)
  qed
qed

text \<open>
  An empty part is stored as a custom transport of the undefined type, so the parser
  still accepts a transport after it: \<open>+tcp://x\<close> parses without error.
\<close>

lemma empty_part_names_no_transport:
  "split_on CHR ''+'' ''+tcp'' = [[], TcpEndpoint]
   \<and> \<not> names_transport []
   \<and> ParseUrlEndpointDescription plain_env ''+tcp://x''
       = (\<lparr>Format = UndefinedFormat, Type = TcpEndpoint, IsCustomType = True, Target = ''x''\<rparr>,
          None)"
  by code_simp

text \<open>
  A part that is none of the seven names is a custom transport, which takes no format:
  \<open>foo://x\<close> parses to the custom type \<open>foo\<close>, and \<open>csv+foo://x\<close> is an error.
\<close>

lemma custom_transport_takes_no_format:
  "ParseUrlEndpointDescription plain_env ''foo://x''
     = (\<lparr>Format = UndefinedFormat, Type = ''foo'', IsCustomType = True, Target = ''x''\<rparr>, None)
   \<and> ParseUrlEndpointDescription plain_env ''csv+foo://x''
     = (\<lparr>Format = CsvFormat, Type = ''foo'', IsCustomType = True, Target = ''x''\<rparr>,
        Some (CannotDefineFormat ''foo''))"
  by code_simp

text \<open>
  Claim C4, as amended. The endpoint string is cut by \<open>strings.SplitN\<close> at the first
  \<open>://\<close> into the parts string and the target, and the parts string at every \<open>+\<close>.
  A part names a format when it is \<open>text\<close>, \<open>csv\<close> or \<open>bin\<close>; every other non-empty
  part names a transport, the four known ones and custom ones alike. When the parts
  name two formats, or name two transports, or name \<open>std\<close> with a target other than
  \<open>-\<close>, the parser returns an error. When the parts are exactly one format \<open>f\<close> and
  one of the transports \<open>tcp\<close>, \<open>listen\<close>, \<open>file\<close>, \<open>std\<close>, in either order, and the
  target is non-empty (and is \<open>-\<close> for \<open>std\<close>), the parser returns the description
  with that format, transport and target and no error; so \<open>f+t://target\<close> and
  \<open>t+f://target\<close> parse to the same description.
\<close>

theorem url_endpoint_conflicts:
  "(SplitN2 endpoint ''://'' = [ps, target]
      \<and> (2 \<le> length (filter allFormatsMap (split_on CHR ''+'' ps))
         \<or> 2 \<le> length (filter names_transport (split_on CHR ''+'' ps))
         \<or> StdEndpoint \<in> set (split_on CHR ''+'' ps) \<and> target \<noteq> ''-'')
     \<longrightarrow> snd (ParseUrlEndpointDescription env endpoint) \<noteq> None)
   \<and> (SplitN2 endpoint ''://'' = [ps, target] \<and> target \<noteq> []
      \<and> filter allFormatsMap (split_on CHR ''+'' ps) = [f]
      \<and> filter (\<lambda>part. \<not> allFormatsMap part) (split_on CHR ''+'' ps) = [t]
      \<and> is_transport t \<and> (t = StdEndpoint \<longrightarrow> target = ''-'')
     \<longrightarrow> ParseUrlEndpointDescription env endpoint
           = (\<lparr>Format = f, Type = t, IsCustomType = False, Target = target\<rparr>, None))
   \<and> (allFormatsMap f \<and> is_transport t \<and> tgt \<noteq> [] \<and> (t = StdEndpoint \<longrightarrow> tgt = ''-'')
     \<longrightarrow> ParseUrlEndpointDescription env (f @ ''+'' @ t @ ''://'' @ tgt)
           = (\<lparr>Format = f, Type = t, IsCustomType = False, Target = tgt\<rparr>, None)
       \<and> ParseUrlEndpointDescription env (t @ ''+'' @ f @ ''://'' @ tgt)
           = (\<lparr>Format = f, Type = t, IsCustomType = False, Target = tgt\<rparr>, None))"
proof (intro conjI impI)
  assume a: "SplitN2 endpoint ''://'' = [ps, target]
      \<and> (2 \<le> length (filter allFormatsMap (split_on CHR ''+'' ps))
         \<or> 2 \<le> length (filter names_transport (split_on CHR ''+'' ps))
         \<or> StdEndpoint \<in> set (split_on CHR ''+'' ps) \<and> target \<noteq> ''-'')"
  then have "snd (parse_parts endpoint target (split_on CHR ''+'' ps)
               (empty_description\<lparr>Target := target\<rparr>)) \<noteq> None"
    using parse_parts_two_formats parse_parts_two_transports
      parse_parts_std_target[of "split_on CHR ''+'' ps" target]
    by (auto simp: stdTransportTarget_def)
  with a show "snd (ParseUrlEndpointDescription env endpoint) \<noteq> None"
    using url_error by blast
next
  assume "SplitN2 endpoint ''://'' = [ps, target] \<and> target \<noteq> []
      \<and> filter allFormatsMap (split_on CHR ''+'' ps) = [f]
      \<and> filter (\<lambda>part. \<not> allFormatsMap part) (split_on CHR ''+'' ps) = [t]
      \<and> is_transport t \<and> (t = StdEndpoint \<longrightarrow> target = ''-'')"
  then show "ParseUrlEndpointDescription env endpoint
           = (\<lparr>Format = f, Type = t, IsCustomType = False, Target = target\<rparr>, None)"
    using url_parts_format_transport by blast
next
  assume b: "allFormatsMap f \<and> is_transport t \<and> tgt \<noteq> [] \<and> (t = StdEndpoint \<longrightarrow> tgt = ''-'')"
  then show "ParseUrlEndpointDescription env (f @ ''+'' @ t @ ''://'' @ tgt)
           = (\<lparr>Format = f, Type = t, IsCustomType = False, Target = tgt\<rparr>, None)"
    using url_format_transport(1) by blast
next
  assume b: "allFormatsMap f \<and> is_transport t \<and> tgt \<noteq> [] \<and> (t = StdEndpoint \<longrightarrow> tgt = ''-'')"
  then show "ParseUrlEndpointDescription env (t @ ''+'' @ f @ ''://'' @ tgt)
           = (\<lparr>Format = f, Type = t, IsCustomType = False, Target = tgt\<rparr>, None)"
    using url_format_transport(2) by blast
qed

text \<open>
  The amended claim C4 at \<open>csv+bin+tcp://x\<close> (two formats), at \<open>tcp+foo://x\<close> (a known
  and a custom transport), at \<open>std://x\<close> (\<open>std\<close> with another target), and at
  \<open>csv+std://-\<close> and \<open>std+csv://-\<close>.
\<close>

theorem url_endpoint_conflicts_witness:
  "SplitN2 ''csv+bin+tcp://x'' ''://'' = [''csv+bin+tcp'', ''x'']
   \<and> 2 \<le> length (filter allFormatsMap (split_on CHR ''+'' ''csv+bin+tcp''))
   \<and> snd (ParseUrlEndpointDescription plain_env ''csv+bin+tcp://x'') \<noteq> None
   \<and> SplitN2 ''tcp+foo://x'' ''://'' = [''tcp+foo'', ''x'']
   \<and> 2 \<le> length (filter names_transport (split_on CHR ''+'' ''tcp+foo''))
   \<and> snd (ParseUrlEndpointDescription plain_env ''tcp+foo://x'') \<noteq> None
   \<and> SplitN2 ''std://x'' ''://'' = [''std'', ''x'']
   \<and> StdEndpoint \<in> set (split_on CHR ''+'' ''std'')
   \<and> snd (ParseUrlEndpointDescription plain_env ''std://x'') \<noteq> None
   \<and> SplitN2 ''std+csv://-'' ''://'' = [''std+csv'', ''-'']
   \<and> filter allFormatsMap (split_on CHR ''+'' ''std+csv'') = [CsvFormat]
   \<and> filter (\<lambda>part. \<not> allFormatsMap part) (split_on CHR ''+'' ''std+csv'') = [StdEndpoint]
   \<and> is_transport StdEndpoint
   \<and> ParseUrlEndpointDescription plain_env ''std+csv://-''
       = (\<lparr>Format = CsvFormat, Type = StdEndpoint, IsCustomType = False, Target = ''-''\<rparr>, None)
   \<and> ParseUrlEndpointDescription plain_env (CsvFormat @ ''+'' @ StdEndpoint @ ''://'' @ ''-'')
       = (\<lparr>Format = CsvFormat, Type = StdEndpoint, IsCustomType = False, Target = ''-''\<rparr>, None)
   \<and> ParseUrlEndpointDescription plain_env (StdEndpoint @ ''+'' @ CsvFormat @ ''://'' @ ''-'')
       = (\<lparr>Format = CsvFormat, Type = StdEndpoint, IsCustomType = False, Target = ''-''\<rparr>, None)"
proof -
  have a: "SplitN2 ''csv+bin+tcp://x'' ''://'' = [''csv+bin+tcp'', ''x'']"
    by code_simp
  have b: "2 \<le> length (filter allFormatsMap (split_on CHR ''+'' ''csv+bin+tcp''))"
    by code_simp
  have c: "SplitN2 ''tcp+foo://x'' ''://'' = [''tcp+foo'', ''x'']"
    by code_simp
  have d: "2 \<le> length (filter names_transport (split_on CHR ''+'' ''tcp+foo''))"
    by code_simp
  have e: "SplitN2 ''std://x'' ''://'' = [''std'', ''x'']"
    by code_simp
  have f: "StdEndpoint \<in> set (split_on CHR ''+'' ''std'')"
    by code_simp
  have g: "SplitN2 ''std+csv://-'' ''://'' = [''std+csv'', ''-'']"
    by code_simp
  have h: "filter allFormatsMap (split_on CHR ''+'' ''std+csv'') = [CsvFormat]"
    by code_simp
  have i: "filter (\<lambda>part. \<not> allFormatsMap part) (split_on CHR ''+'' ''std+csv'') = [StdEndpoint]"
    by code_simp
  have j: "allFormatsMap CsvFormat" and k: "is_transport StdEndpoint"
    by (simp_all add: allFormatsMap_def is_transport_def)
  have two_formats: "snd (ParseUrlEndpointDescription plain_env ''csv+bin+tcp://x'') \<noteq> None"
    using url_endpoint_conflicts[where endpoint = "''csv+bin+tcp://x''"
        and ps = "''csv+bin+tcp''" and target = "''x''" and env = plain_env] a b
    by simp
  have two_transports: "snd (ParseUrlEndpointDescription plain_env ''tcp+foo://x'') \<noteq> None"
    using url_endpoint_conflicts[where endpoint = "''tcp+foo://x''"
        and ps = "''tcp+foo''" and target = "''x''" and env = plain_env] c d
    by simp
  have std_target: "snd (ParseUrlEndpointDescription plain_env ''std://x'') \<noteq> None"
    using url_endpoint_conflicts[where endpoint = "''std://x''"
        and ps = "''std''" and target = "''x''" and env = plain_env] e f
    by simp
  from url_endpoint_conflicts[where endpoint = "''std+csv://-''" and ps = "''std+csv''"
      and target = "''-''" and env = plain_env and f = CsvFormat and t = StdEndpoint
      and tgt = "''-''"] g h i j k
  have l: "ParseUrlEndpointDescription plain_env ''std+csv://-''
       = (\<lparr>Format = CsvFormat, Type = StdEndpoint, IsCustomType = False, Target = ''-''\<rparr>, None)"
    and m: "ParseUrlEndpointDescription plain_env (CsvFormat @ ''+'' @ StdEndpoint @ ''://'' @ ''-'')
       = (\<lparr>Format = CsvFormat, Type = StdEndpoint, IsCustomType = False, Target = ''-''\<rparr>, None)"
    and n: "ParseUrlEndpointDescription plain_env (StdEndpoint @ ''+'' @ CsvFormat @ ''://'' @ ''-'')
       = (\<lparr>Format = CsvFormat, Type = StdEndpoint, IsCustomType = False, Target = ''-''\<rparr>, None)"
    by simp_all
  show ?thesis
    by (intro conjI a b two_formats c d two_transports e f std_target g h i k l m n)
qed

text \<open>
  Claim C4 as stated fails at \<open>csv+tcp://\<close>: one recognised format, one recognised
  transport, no conflict, and the parser returns an error because the target is empty.
\<close>

theorem url_endpoint_conflicts_counterexample:
  "SplitN2 ''csv+tcp://'' ''://'' = [''csv+tcp'', []]
   \<and> split_on CHR ''+'' ''csv+tcp'' = [CsvFormat, TcpEndpoint]
   \<and> allFormatsMap CsvFormat \<and> is_transport TcpEndpoint
   \<and> ParseUrlEndpointDescription plain_env ''csv+tcp://''
       = (empty_description, Some (InvalidUrlEndpoint ''csv+tcp://''))"
  by code_simp

lemma Contains_colon: "Contains target '':'' \<longleftrightarrow> CHR '':'' \<in> set target"
proof -
  have "cut_first '':'' target \<noteq> None \<longleftrightarrow> CHR '':'' \<in> set target"
    by (induction target) (auto split: option.splits)
  then show ?thesis by (simp add: Contains_def)
qed

text \<open>
  Claim C5, as amended. The empty target is an error and \<open>-\<close> is standard I/O. Any
  other target that \<open>net.SplitHostPort\<close> splits into host and port, with a port that
  \<open>net.LookupPort\<close> accepts, is the listening TCP type when the host is empty and the
  active TCP type otherwise. Every remaining target is an error when it contains a
  colon or is not a valid file name, and the file type otherwise.
\<close>

theorem guess_endpoint_type:
  "GuessEndpointType env [] = (UndefinedEndpoint, Some EmptyEndpoint)
   \<and> GuessEndpointType env ''-'' = (StdEndpoint, None)
   \<and> (target \<noteq> [] \<and> target \<noteq> ''-'' \<and> SplitHostPort target = (host, port, None)
        \<and> LookupPort env port
      \<longrightarrow> GuessEndpointType env target
            = (if host = [] then TcpListenEndpoint else TcpEndpoint, None))
   \<and> (target \<noteq> [] \<and> target \<noteq> ''-''
        \<and> \<not> (snd (snd (SplitHostPort target)) = None
               \<and> LookupPort env (fst (snd (SplitHostPort target))))
      \<longrightarrow> GuessEndpointType env target
            = (if CHR '':'' \<in> set target \<or> \<not> IsValidFilename env target
               then (UndefinedEndpoint, Some (NotFilenameNotTcp target))
               else (FileEndpoint, None)))"
  by (auto simp: GuessEndpointType_def stdTransportTarget_def Contains_colon split: prod.splits)

text \<open>
  Claim C5 as stated fails at \<open>a:b:c\<close>: it is not \<open>-\<close>, not a host:port pair and not
  \<open>:port\<close>, and the result is an error, not the file type.
\<close>

theorem guess_endpoint_type_counterexample:
  "''a:b:c'' \<noteq> [] \<and> ''a:b:c'' \<noteq> ''-''
   \<and> SplitHostPort ''a:b:c'' = ([], [], Some TooManyColons)
   \<and> GuessEndpointType plain_env ''a:b:c'' = (UndefinedEndpoint, Some (NotFilenameNotTcp ''a:b:c''))
   \<and> GuessEndpointType plain_env ''a:b:c'' \<noteq> (FileEndpoint, None)"
  by code_simp

text \<open>
  The amended claim C5 at \<open>localhost:5555\<close>, \<open>:5555\<close> and \<open>data.csv\<close>.
\<close>

theorem guess_endpoint_type_witness:
  "SplitHostPort ''localhost:5555'' = (''localhost'', ''5555'', None)
   \<and> LookupPort plain_env ''5555''
   \<and> GuessEndpointType plain_env ''localhost:5555'' = (TcpEndpoint, None)
   \<and> SplitHostPort '':5555'' = ([], ''5555'', None)
   \<and> GuessEndpointType plain_env '':5555'' = (TcpListenEndpoint, None)
   \<and> snd (snd (SplitHostPort ''data.csv'')) = Some MissingPort
   \<and> CHR '':'' \<notin> set ''data.csv'' \<and> IsValidFilename plain_env ''data.csv''
   \<and> GuessEndpointType plain_env ''data.csv'' = (FileEndpoint, None)"
proof -
  have a: "SplitHostPort ''localhost:5555'' = (''localhost'', ''5555'', None)" by code_simp
  have b: "LookupPort plain_env ''5555''" by code_simp
  have c: "SplitHostPort '':5555'' = ([], ''5555'', None)" by code_simp
  have d: "snd (snd (SplitHostPort ''data.csv'')) = Some MissingPort" by code_simp
  have e: "CHR '':'' \<notin> set ''data.csv''" by simp
  have f: "IsValidFilename plain_env ''data.csv''" by code_simp
  from guess_endpoint_type[where env = plain_env and target = "''localhost:5555''"
      and host = "''localhost''" and port = "''5555''"]
    guess_endpoint_type[where env = plain_env and target = "'':5555''"
      and host = "[]" and port = "''5555''"]
    guess_endpoint_type[where env = plain_env and target = "''data.csv''"]
    a b c d e f
  show ?thesis by simp
qed

lemma CreateInput_loop_step:
  "(\<exists>e. CreateInput_loop env result t (a # inputs) = Returned (Inl e))
   \<or> (\<exists>pn. CreateInput_loop env result t (a # inputs) = Panicked pn)
   \<or> (\<exists>r' t'. CreateInput_loop env result t (a # inputs) = CreateInput_loop env r' t' inputs)"
proof -
  obtain ep perr where pe: "ParseEndpointDescription env a False = (ep, perr)"
    by (cases "ParseEndpointDescription env a False") auto
  show ?thesis
  proof (cases perr)
    case (Some e)
    then show ?thesis using pe by simp
  next
    case None
    note ok = this
    show ?thesis
    proof (cases "Format ep \<noteq> UndefinedFormat")
      case True
      then show ?thesis using pe ok by simp
    next
      case False
      note nofmt = this
      show ?thesis
      proof (cases result)
        case None
        note rn = this
        show ?thesis
        proof (cases "Type ep = StdEndpoint \<or> Type ep = TcpEndpoint
                      \<or> Type ep = TcpListenEndpoint \<or> Type ep = FileEndpoint")
          case True
          have "\<exists>r' t'. CreateInput_loop env result t (a # inputs)
                          = CreateInput_loop env r' t' inputs"
            using True pe ok nofmt rn by auto
          then show ?thesis by blast
        next
          case False
          show ?thesis
          proof (cases "CustomDataSources env (Type ep)")
            case None
            then show ?thesis using False pe ok nofmt rn by simp
          next
            case (Some factory)
            obtain src ferr where fa: "factory (Target ep) = (src, ferr)"
              by (cases "factory (Target ep)") auto
            show ?thesis
            proof (cases "IsCustomType ep")
              case c: True
              show ?thesis
              proof (cases ferr)
                case None
                have "CreateInput_loop env result t (a # inputs)
                          = CreateInput_loop env src (Type ep) inputs"
                  using None c fa Some False pe ok nofmt rn by simp
                then show ?thesis by blast
              next
                case e: (Some err)
                then show ?thesis using c fa Some False pe ok nofmt rn by simp
              qed
            next
              case False
              then show ?thesis using Some \<open>\<not> (Type ep = StdEndpoint \<or> Type ep = TcpEndpoint
                      \<or> Type ep = TcpListenEndpoint \<or> Type ep = FileEndpoint)\<close>
                  pe ok nofmt rn by simp
            qed
          qed
        qed
      next
        case (Some source)
        note rs = this
        show ?thesis
        proof (cases "t \<noteq> Type ep \<or> IsCustomType ep
                      \<or> Type ep = StdEndpoint \<or> Type ep = TcpListenEndpoint
                      \<or> (Type ep \<noteq> TcpEndpoint \<and> Type ep \<noteq> FileEndpoint)")
          case True
          have "\<exists>e. CreateInput_loop env result t (a # inputs) = Returned (Inl e)"
            using True pe ok nofmt rs by auto
          then show ?thesis by blast
        next
          case False
          then have same: "t = Type ep" and nc: "\<not> IsCustomType ep"
            and ns: "Type ep \<noteq> StdEndpoint" and nl: "Type ep \<noteq> TcpListenEndpoint"
            and tf: "Type ep = TcpEndpoint \<or> Type ep = FileEndpoint"
            by auto
          from tf show ?thesis
          proof
            assume tcp: "Type ep = TcpEndpoint"
            show ?thesis
              using tcp same nc ns nl pe ok nofmt rs
              by (cases source) auto
          next
            assume fl: "Type ep = FileEndpoint"
            from fl have nt: "Type ep \<noteq> TcpEndpoint" by (simp add: TcpEndpoint_def FileEndpoint_def)
            show ?thesis
              using fl nt same nc ns nl pe ok nofmt rs
              by (cases source) auto
          qed
        qed
      qed
    qed
  qed
qed

lemma parse_parts_keeps_format:
  "parse_parts ep t parts res = (res', None) \<Longrightarrow>
   Format res \<noteq> [] \<or> list_ex allFormatsMap parts \<Longrightarrow> Format res' \<noteq> []"
proof (induction parts arbitrary: res)
  case Nil
  then show ?case by simp
next
  case (Cons part parts)
  from parse_parts_step[of ep t part parts res]
  show ?case
  proof (elim disjE exE conjE)
    fix e assume "parse_parts ep t (part # parts) res = (res, Some e)"
    with Cons.prems(1) show ?thesis by simp
  next
    fix r assume r: "parse_parts ep t (part # parts) res = parse_parts ep t parts r"
      "Format r = (if allFormatsMap part then part else Format res)"
    from r(1) Cons.prems(1) have ok: "parse_parts ep t parts r = (res', None)" by simp
    have "Format r \<noteq> [] \<or> list_ex allFormatsMap parts"
      using Cons.prems(2) r(2) by (auto simp: format_nonempty)
    from Cons.IH[OF ok this] show ?thesis .
  qed
qed

lemma url_with_format:
  assumes split: "SplitN2 input ''://'' = [ps, target]"
    and fmt: "list_ex allFormatsMap (split_on CHR ''+'' ps)"
  shows "snd (ParseEndpointDescription env input False) \<noteq> None
         \<or> Format (fst (ParseEndpointDescription env input False)) \<noteq> UndefinedFormat"
proof -
  from split have c: "Contains input ''://''"
    by (auto simp: SplitN2_def Contains_def split: option.splits)
  have pe: "ParseEndpointDescription env input False = ParseUrlEndpointDescription env input"
    using c by (simp add: ParseEndpointDescription_def)
  show ?thesis
  proof (cases "ps = [] \<or> target = []")
    case True
    then have "snd (ParseUrlEndpointDescription env input) \<noteq> None"
      using split by (auto simp: ParseUrlEndpointDescription_def Let_def)
    then show ?thesis by (simp add: pe)
  next
    case False
    obtain res perr where pp: "parse_parts input target (split_on CHR ''+'' ps)
               (empty_description\<lparr>Target := target\<rparr>) = (res, perr)"
      by (cases "parse_parts input target (split_on CHR ''+'' ps)
               (empty_description\<lparr>Target := target\<rparr>)") auto
    show ?thesis
    proof (cases perr)
      case (Some e)
      then have "snd (ParseUrlEndpointDescription env input) \<noteq> None"
        using False split pp by (simp add: ParseUrlEndpointDescription_def Let_def)
      then show ?thesis by (simp add: pe)
    next
      case None
      from parse_parts_keeps_format[OF pp[unfolded None]] fmt
      have f: "Format res \<noteq> []" by simp
      have "snd (ParseUrlEndpointDescription env input) \<noteq> None
            \<or> Format (fst (ParseUrlEndpointDescription env input)) \<noteq> UndefinedFormat"
        using False split pp None f
        by (auto simp: ParseUrlEndpointDescription_def Let_def UndefinedFormat_def
            split: prod.splits)
      then show ?thesis by (simp add: pe)
    qed
  qed
qed

lemma CreateInput_loop_rejects:
  assumes p: "snd (ParseEndpointDescription env input False) \<noteq> None
         \<or> Format (fst (ParseEndpointDescription env input False)) \<noteq> UndefinedFormat"
  shows "CreateInput_loop env result inputType (pre @ input # rest) \<noteq> Returned (Inr src)"
proof (induction pre arbitrary: result inputType)
  case Nil
  obtain d perr where pe: "ParseEndpointDescription env input False = (d, perr)"
    by (cases "ParseEndpointDescription env input False") auto
  show ?case
  proof (cases perr)
    case None
    with p pe have "Format d \<noteq> UndefinedFormat" by simp
    with pe None show ?thesis by simp
  next
    case (Some e)
    with pe show ?thesis by simp
  qed
next
  case (Cons a pre)
  from CreateInput_loop_step[of env result inputType a "pre @ input # rest"]
  show ?case
  proof (elim disjE exE)
    fix r' t'
    assume "CreateInput_loop env result inputType (a # pre @ input # rest)
              = CreateInput_loop env r' t' (pre @ input # rest)"
    then show ?thesis using Cons.IH[of r' t'] by simp
  qed simp_all
qed

text \<open>
  Claim C10. An input whose description parses with an explicit format makes
  \<open>CreateInput\<close> return the "Format cannot be specified for data input" error when
  it is the first input, and at any position in the input list no source is returned.
  More generally no source is returned whenever some input is a URL whose parts name a
  format (the parser or \<open>CreateInput\<close> rejects it). The \<open>Unmarshaller\<close> of a
  description is nil.
\<close>

theorem create_input_rejects_format:
  "(ParseEndpointDescription env input False = (d, None) \<and> Format d \<noteq> UndefinedFormat
      \<longrightarrow> CreateInput env (input # rest) = Returned (Inl (FormatCannotBeSpecified input))
        \<and> (\<forall>src. CreateInput env (pre @ input # rest) \<noteq> Returned (Inr src)))
   \<and> (SplitN2 input ''://'' = [ps, target] \<and> list_ex allFormatsMap (split_on CHR ''+'' ps)
      \<longrightarrow> (\<forall>src. CreateInput env (pre @ input # rest) \<noteq> Returned (Inr src)))
   \<and> Unmarshaller d = None"
proof (intro conjI impI allI)
  assume a: "ParseEndpointDescription env input False = (d, None) \<and> Format d \<noteq> UndefinedFormat"
  then show "CreateInput env (input # rest) = Returned (Inl (FormatCannotBeSpecified input))"
    by (simp add: CreateInput_def)
  fix src
  from a have "snd (ParseEndpointDescription env input False) \<noteq> None
         \<or> Format (fst (ParseEndpointDescription env input False)) \<noteq> UndefinedFormat"
    by simp
  from CreateInput_loop_rejects[OF this]
  show "CreateInput env (pre @ input # rest) \<noteq> Returned (Inr src)"
    by (simp add: CreateInput_def)
next
  fix src
  assume "SplitN2 input ''://'' = [ps, target] \<and> list_ex allFormatsMap (split_on CHR ''+'' ps)"
  then have "snd (ParseEndpointDescription env input False) \<noteq> None
         \<or> Format (fst (ParseEndpointDescription env input False)) \<noteq> UndefinedFormat"
    using url_with_format by blast
  from CreateInput_loop_rejects[OF this]
  show "CreateInput env (pre @ input # rest) \<noteq> Returned (Inr src)"
    by (simp add: CreateInput_def)
next
  show "Unmarshaller d = None" by (simp add: Unmarshaller_def)
qed

text \<open>
  Claim C10 at \<open>csv+file://x\<close>, which the URL parser accepts with format \<open>csv\<close>,
  alone and between two accepted file inputs.
\<close>

theorem create_input_rejects_format_witness:
  "ParseEndpointDescription plain_env ''csv+file://x'' False
     = (\<lparr>Format = CsvFormat, Type = FileEndpoint, IsCustomType = False, Target = ''x''\<rparr>, None)
   \<and> CsvFormat \<noteq> UndefinedFormat
   \<and> SplitN2 ''csv+file://x'' ''://'' = [''csv+file'', ''x'']
   \<and> list_ex allFormatsMap (split_on CHR ''+'' ''csv+file'')
   \<and> CreateInput plain_env [''csv+file://x'']
       = Returned (Inl (FormatCannotBeSpecified ''csv+file://x''))
   \<and> CreateInput plain_env [''file://y'', ''csv+file://x'', ''z'']
       = Returned (Inl (FormatCannotBeSpecified ''csv+file://x''))
   \<and> Unmarshaller \<lparr>Format = CsvFormat, Type = FileEndpoint, IsCustomType = False,
                     Target = ''x''\<rparr> = None"
proof -
  have a: "ParseEndpointDescription plain_env ''csv+file://x'' False
     = (\<lparr>Format = CsvFormat, Type = FileEndpoint, IsCustomType = False, Target = ''x''\<rparr>, None)"
    by code_simp
  have b: "CsvFormat \<noteq> UndefinedFormat"
    by (simp add: CsvFormat_def UndefinedFormat_def)
  have c: "CreateInput plain_env [''file://y'', ''csv+file://x'', ''z'']
       = Returned (Inl (FormatCannotBeSpecified ''csv+file://x''))"
    by code_simp
  have e: "SplitN2 ''csv+file://x'' ''://'' = [''csv+file'', ''x'']"
    by code_simp
  have f: "list_ex allFormatsMap (split_on CHR ''+'' ''csv+file'')"
    by code_simp
  from create_input_rejects_format[where env = plain_env and input = "''csv+file://x''"
      and d = "\<lparr>Format = CsvFormat, Type = FileEndpoint, IsCustomType = False, Target = ''x''\<rparr>"
      and rest = "[]" and pre = "[]" and ps = "''csv+file''" and target = "''x''"] a b c e f
  show ?thesis by simp
qed

lemma Less_tags_key: "Less_tags tgs a b \<longleftrightarrow> sample_key tgs a < sample_key tgs b"
  by (induction tgs) (auto simp: sample_key_def)

lemma Less_key: "Less sorter a b \<longleftrightarrow> sample_key (sorter_Tags sorter) a < sample_key (sorter_Tags sorter) b"
  by (simp add: Less_def Less_tags_key)

lemma mset_insert_by: "mset (insert_by lt x ys) = add_mset x (mset ys)"
  by (induction ys) auto

lemma set_insert_by: "set (insert_by lt x ys) = insert x (set ys)"
  by (induction ys) auto

lemma sorted_insert_by:
  assumes neg_trans: "\<And>a b c. \<not> lt a b \<Longrightarrow> \<not> lt b c \<Longrightarrow> \<not> lt a c"
    and asym: "\<And>a b. lt a b \<Longrightarrow> \<not> lt b a"
    and "sorted_wrt (\<lambda>a b. \<not> lt b a) ys"
  shows "sorted_wrt (\<lambda>a b. \<not> lt b a) (insert_by lt x ys)"
  using assms(3)
proof (induction ys)
  case Nil
  then show ?case by simp
next
  case (Cons y ys)
  show ?case
  proof (cases "lt x y")
    case True
    have "\<forall>z \<in> set ys. \<not> lt z x"
    proof
      fix z assume "z \<in> set ys"
      with Cons.prems have "\<not> lt z y" by simp
      moreover have "\<not> lt y x" using True asym by blast
      ultimately show "\<not> lt z x" using neg_trans by blast
    qed
    with True Cons.prems asym show ?thesis by auto
  next
    case False
    with Cons show ?thesis by (auto simp: set_insert_by)
  qed
qed

lemma insertion_sort_sorts:
  assumes neg_trans: "\<And>a b c. \<not> lt a b \<Longrightarrow> \<not> lt b c \<Longrightarrow> \<not> lt a c"
    and asym: "\<And>a b. lt a b \<Longrightarrow> \<not> lt b a"
  shows "sorts_by lt xs (insertion_sort lt xs)"
proof -
  have m: "mset (insertion_sort lt xs) = mset xs"
    by (induction xs) (simp_all add: insertion_sort_def mset_insert_by)
  have s: "sorted_wrt (\<lambda>a b. \<not> lt b a) (insertion_sort lt xs)"
  proof (induction xs)
    case Nil
    then show ?case by (simp add: insertion_sort_def)
  next
    case (Cons x xs)
    have "insertion_sort lt (x # xs) = insert_by lt x (insertion_sort lt xs)"
      by (simp add: insertion_sort_def)
    with sorted_insert_by[of lt "insertion_sort lt xs" x, OF neg_trans asym Cons.IH]
    show ?case by simp
  qed
  from m s show ?thesis by (simp add: sorts_by_def)
qed

lemma insertion_sort_Less: "sorts_by (Less sorter) smpls (insertion_sort (Less sorter) smpls)"
  by (rule insertion_sort_sorts) (auto simp: Less_key)

text \<open>
  Claim C7. \<open>Less\<close> is a strict weak order, which is what \<open>sort.Sort\<close> asks of it.
  For every batch and every tag list, when \<open>sort.Sort\<close> keeps its promise on the
  batch, \<open>ProcessBatch\<close> of the sorter returns the header it was given and no error,
  and a permutation of the input samples that is sorted by the key (values of the
  listed tags in order, then the timestamp) in lexicographic order.
\<close>

theorem sorter_orders_batch:
  "\<not> Less sorter a a
   \<and> (Less sorter a b \<and> Less sorter b c \<longrightarrow> Less sorter a c)
   \<and> (\<not> Less sorter a b \<and> \<not> Less sorter b c \<longrightarrow> \<not> Less sorter a c)
   \<and> (sorts_by (Less sorter) smpls (srt (Less sorter) smpls)
      \<longrightarrow> fst (ProcessBatch_sorter srt sorter header smpls) = header
        \<and> snd (snd (ProcessBatch_sorter srt sorter header smpls)) = None
        \<and> mset (fst (snd (ProcessBatch_sorter srt sorter header smpls))) = mset smpls
        \<and> sorted (map (sample_key (sorter_Tags sorter))
                    (fst (snd (ProcessBatch_sorter srt sorter header smpls)))))"
proof (intro conjI impI)
  show "\<not> Less sorter a a" by (simp add: Less_key)
  show "Less sorter a c" if "Less sorter a b \<and> Less sorter b c"
    using that by (auto simp: Less_key)
  show "\<not> Less sorter a c" if "\<not> Less sorter a b \<and> \<not> Less sorter b c"
    using that by (auto simp: Less_key)
next
  assume srt: "sorts_by (Less sorter) smpls (srt (Less sorter) smpls)"
  let ?out = "srt (Less sorter) smpls"
  from srt have "sorted_wrt (\<lambda>a b. \<not> Less sorter b a) ?out"
    by (simp add: sorts_by_def)
  then have "sorted_wrt (\<lambda>a b. sample_key (sorter_Tags sorter) a \<le> sample_key (sorter_Tags sorter) b) ?out"
    by (simp add: Less_key not_less)
  then have s: "sorted (map (sample_key (sorter_Tags sorter)) ?out)"
    by (simp add: sorted_map)
  show "fst (ProcessBatch_sorter srt sorter header smpls) = header"
    and "snd (snd (ProcessBatch_sorter srt sorter header smpls)) = None"
    by (simp_all add: ProcessBatch_sorter_def)
  show "mset (fst (snd (ProcessBatch_sorter srt sorter header smpls))) = mset smpls"
    using srt by (simp add: ProcessBatch_sorter_def sorts_by_def)
  show "sorted (map (sample_key (sorter_Tags sorter))
                    (fst (snd (ProcessBatch_sorter srt sorter header smpls))))"
    using s by (simp add: ProcessBatch_sorter_def)
qed

text \<open>
  Claim C7 with insertion sort in the place of \<open>sort.Sort\<close>, at three samples tagged
  \<open>host=b\<close> (time 1), \<open>host=a\<close> (time 7), \<open>host=a\<close> (time 3), sorted by \<open>host\<close>.
\<close>

theorem sorter_orders_batch_witness:
  "Less host_sorter (host_sample ''a'' 3) (host_sample ''a'' 7)
   \<and> Less host_sorter (host_sample ''a'' 7) (host_sample ''b'' 1)
   \<and> Less host_sorter (host_sample ''a'' 3) (host_sample ''b'' 1)
   \<and> \<not> Less host_sorter (host_sample ''b'' 1) (host_sample ''a'' 7)
   \<and> sorts_by (Less host_sorter) unsorted_batch (insertion_sort (Less host_sorter) unsorted_batch)
   \<and> ProcessBatch_sorter insertion_sort host_sorter (Some example_header) unsorted_batch
       = (Some example_header, sorted_batch, None)
   \<and> sorted (map (sample_key (sorter_Tags host_sorter)) sorted_batch)"
proof -
  have l1: "Less host_sorter (host_sample ''a'' 3) (host_sample ''a'' 7)"
    and l2: "Less host_sorter (host_sample ''a'' 7) (host_sample ''b'' 1)"
    and l3: "Less host_sorter (host_sample ''a'' 3) (host_sample ''b'' 1)"
    and l4: "\<not> Less host_sorter (host_sample ''b'' 1) (host_sample ''a'' 7)"
    by (simp_all add: Less_def host_sorter_def host_sample_def Tag_def)
  have l5: "\<not> Less host_sorter (host_sample ''a'' 7) (host_sample ''a'' 3)"
    and l6: "\<not> Less host_sorter (host_sample ''b'' 1) (host_sample ''a'' 3)"
    by (simp_all add: Less_def host_sorter_def host_sample_def Tag_def)
  have out: "insertion_sort (Less host_sorter) unsorted_batch = sorted_batch"
    using l4 l5 l6 by (simp add: insertion_sort_def unsorted_batch_def sorted_batch_def)
  have pb: "ProcessBatch_sorter insertion_sort host_sorter (Some example_header) unsorted_batch
       = (Some example_header, sorted_batch, None)"
    by (simp add: ProcessBatch_sorter_def out)
  have c: "sorts_by (Less host_sorter) unsorted_batch (insertion_sort (Less host_sorter) unsorted_batch)"
    by (rule insertion_sort_Less)
  from sorter_orders_batch[where sorter = host_sorter and a = "host_sample ''a'' 3"
      and b = "host_sample ''a'' 7" and c = "host_sample ''b'' 1" and srt = insertion_sort
      and smpls = unsorted_batch and header = "Some example_header"] l1 l2 l3 l4 c pb
  show ?thesis by simp
qed

lemma Header_after_stop:
  "stopped sink \<Longrightarrow> Header_sink dial sink h = (Some (AlreadyStopped (Endpoint sink)), sink)"
  by (simp add: Header_sink_def)

lemma Sample_after_stop:
  "stopped sink \<Longrightarrow> Sample_sink dial sink s h = Some (Some (AlreadyStopped (Endpoint sink)), sink)"
  by (simp add: Sample_sink_def)

lemma run_calls_after_stop:
  "stopped sink \<Longrightarrow>
   run_calls dial sink calls
     = Some (replicate (length calls) (Some (AlreadyStopped (Endpoint sink))), sink)"
proof (induction calls)
  case Nil
  then show ?case by simp
next
  case (Cons c calls)
  then show ?case
    by (cases c) (simp_all add: Header_after_stop Sample_after_stop)
qed

lemma stopped_Close: "stopped (Close_sink sink)"
  by (simp add: Close_sink_def)

lemma Endpoint_Close: "Endpoint (Close_sink sink) = Endpoint sink"
  by (simp add: Close_sink_def closeConnection_def)

text \<open>
  Claim C8. On a sink on which \<open>Close\<close> has been called, \<open>Sample\<close> and \<open>Header\<close>
  return the "already stopped" error and leave the sink as it was: no endpoint is
  dialed, no sample is enqueued. The same holds for every sequence of such calls.
\<close>

theorem stopped_sink_rejects:
  "Sample_sink dial (Close_sink sink) s h
     = Some (Some (AlreadyStopped (Endpoint sink)), Close_sink sink)
   \<and> Header_sink dial (Close_sink sink) h
     = (Some (AlreadyStopped (Endpoint sink)), Close_sink sink)
   \<and> run_calls dial (Close_sink sink) calls
     = Some (replicate (length calls) (Some (AlreadyStopped (Endpoint sink))), Close_sink sink)"
proof (intro conjI)
  show "Sample_sink dial (Close_sink sink) s h
     = Some (Some (AlreadyStopped (Endpoint sink)), Close_sink sink)"
    using Sample_after_stop[OF stopped_Close, of dial sink s h] by (simp only: Endpoint_Close)
  show "Header_sink dial (Close_sink sink) h
     = (Some (AlreadyStopped (Endpoint sink)), Close_sink sink)"
    using Header_after_stop[OF stopped_Close, of dial sink h] by (simp only: Endpoint_Close)
  show "run_calls dial (Close_sink sink) calls
     = Some (replicate (length calls) (Some (AlreadyStopped (Endpoint sink))), Close_sink sink)"
    using run_calls_after_stop[OF stopped_Close, of dial sink calls]
    by (simp only: Endpoint_Close)
qed

text \<open>
  Claim C8 at a sink with an open connection: before \<open>Close\<close> a sample is enqueued,
  after \<open>Close\<close> the calls return the error and the closed sink stays as it is.
\<close>

theorem stopped_sink_rejects_witness:
  "Sample_sink dial_ok open_sink example_sample example_header
     = Some (None, open_sink\<lparr>conn := Some \<lparr>conn_open = True, remote = ''10.0.0.1:5555'',
                                           samples_chan = Some [example_sample]\<rparr>\<rparr>)
   \<and> Close_sink open_sink = closed_sink
   \<and> Sample_sink dial_ok closed_sink example_sample example_header
       = Some (Some (AlreadyStopped ''10.0.0.1:5555''), closed_sink)
   \<and> Header_sink dial_ok closed_sink example_header
       = (Some (AlreadyStopped ''10.0.0.1:5555''), closed_sink)
   \<and> run_calls dial_ok closed_sink
         [CallSample example_sample example_header, CallHeader example_header]
       = Some ([Some (AlreadyStopped ''10.0.0.1:5555''), Some (AlreadyStopped ''10.0.0.1:5555'')],
               closed_sink)"
proof -
  have a: "Sample_sink dial_ok open_sink example_sample example_header
     = Some (None, open_sink\<lparr>conn := Some \<lparr>conn_open = True, remote = ''10.0.0.1:5555'',
                                           samples_chan = Some [example_sample]\<rparr>\<rparr>)"
    by (simp add: Sample_sink_def open_sink_def Check_def example_sample_def example_header_def
        Running_def assertConnection_def tcp_sample_buffer_def)
  have b: "Close_sink open_sink = closed_sink"
    by (simp add: Close_sink_def closeConnection_def conn_Close_def conn_err_def open_sink_def
        closed_sink_def Let_def)
  have c: "Endpoint open_sink = ''10.0.0.1:5555''"
    by (simp add: open_sink_def)
  from stopped_sink_rejects[where sink = open_sink and dial = dial_ok and s = example_sample
      and h = example_header
      and calls = "[CallSample example_sample example_header, CallHeader example_header]"]
    a b c
  show ?thesis by simp
qed

text \<open>
  Claim C9, as amended. \<open>PCAProjection.Sample\<close> never assigns its named result and
  never returns a sample. For every input sample whose projection \<open>vector\<close> returns,
  \<open>SetSampleValues\<close> is called on the nil \<open>result\<close>, its first statement is the nil
  dereference, and that panic ends the call: it is the only call made on \<open>result\<close>.
  \<open>CopyMetadataFrom\<close> is never called, on no pointer. When the projection itself
  panics, or the input pointer is nil, the call ends with that panic before any call
  on \<open>result\<close>.
\<close>

theorem pca_sample_nil_dereference:
  "snd (PCAProjection_Sample vector sample) \<noteq> Returned r
   \<and> Call_CopyMetadataFrom receiver \<notin> set (fst (PCAProjection_Sample vector sample))
   \<and> SetSampleValues None vals = Panicked NilDereference
   \<and> SampleToVector (Some s) = Returned (Values s)
   \<and> (vector (Values s) = Returned vals
      \<longrightarrow> PCAProjection_Sample vector (Some s)
            = ([Call_SetSampleValues None vals], Panicked NilDereference))
   \<and> (vector (Values s) = Panicked pn
      \<longrightarrow> PCAProjection_Sample vector (Some s) = ([], Panicked pn))
   \<and> PCAProjection_Sample vector None = ([], Panicked NilDereference)"
proof (intro conjI impI)
  show "snd (PCAProjection_Sample vector sample) \<noteq> Returned r"
    by (simp add: PCAProjection_Sample_def SetSampleValues_def split: outcome.splits)
  show "Call_CopyMetadataFrom receiver \<notin> set (fst (PCAProjection_Sample vector sample))"
    by (simp add: PCAProjection_Sample_def SetSampleValues_def split: outcome.splits)
  show "SetSampleValues None vals = Panicked NilDereference"
    by (simp add: SetSampleValues_def)
  show "SampleToVector (Some s) = Returned (Values s)"
    by (simp add: SampleToVector_def)
  show "PCAProjection_Sample vector None = ([], Panicked NilDereference)"
    by (simp add: PCAProjection_Sample_def SampleToVector_def)
next
  assume "vector (Values s) = Returned vals"
  then show "PCAProjection_Sample vector (Some s)
            = ([Call_SetSampleValues None vals], Panicked NilDereference)"
    by (simp add: PCAProjection_Sample_def SampleToVector_def SetSampleValues_def)
next
  assume "vector (Values s) = Panicked pn"
  then show "PCAProjection_Sample vector (Some s) = ([], Panicked pn)"
    by (simp add: PCAProjection_Sample_def SampleToVector_def)
qed

text \<open>
  The amended claim C9 at the example sample \<open>(values = [0.5, 1024])\<close>: projected onto
  its first component, and projected with a component matrix of three rows.
\<close>

theorem pca_sample_nil_dereference_witness:
  "first_component (Values example_sample) = Returned [1 / 2]
   \<and> PCAProjection_Sample first_component (Some example_sample)
       = ([Call_SetSampleValues None [1 / 2]], Panicked NilDereference)
   \<and> three_row_projection (Values example_sample) = Panicked MatrixShape
   \<and> PCAProjection_Sample three_row_projection (Some example_sample)
       = ([], Panicked MatrixShape)"
proof -
  have a: "first_component (Values example_sample) = Returned [1 / 2]"
    by (simp add: first_component_def example_sample_def)
  have b: "three_row_projection (Values example_sample) = Panicked MatrixShape"
    by (simp add: three_row_projection_def example_sample_def)
  have c: "PCAProjection_Sample first_component (Some example_sample)
       = ([Call_SetSampleValues None [1 / 2]], Panicked NilDereference)"
    using pca_sample_nil_dereference[where vector = first_component and s = example_sample
        and vals = "[1 / 2]"] a
    by simp
  have d: "PCAProjection_Sample three_row_projection (Some example_sample)
       = ([], Panicked MatrixShape)"
    using pca_sample_nil_dereference[where vector = three_row_projection
        and s = example_sample and pn = MatrixShape] b
    by simp
  show ?thesis
    by (intro conjI a b c d)
qed

text \<open>
  Claim C9 as stated fails at the example sample projected onto its first component:
  the call of \<open>SetSampleValues\<close> on the nil \<open>result\<close> panics, so the body ends there
  and \<open>CopyMetadataFrom\<close> is not called on the nil \<open>result\<close>.
\<close>

theorem pca_sample_nil_dereference_counterexample:
  "fst (PCAProjection_Sample first_component (Some example_sample))
     = [Call_SetSampleValues None [1 / 2]]
   \<and> Call_CopyMetadataFrom None
       \<notin> set (fst (PCAProjection_Sample first_component (Some example_sample)))
   \<and> snd (PCAProjection_Sample first_component (Some example_sample))
       = Panicked NilDereference"
  by (simp add: PCAProjection_Sample_def SampleToVector_def SetSampleValues_def
      first_component_def example_sample_def)















end
